theory Spec2Isabelle
  imports Complex_Main "HOL-Library.Log_Nat"
begin

section \<open>JavaScript numbers\<close>

text \<open>
  A JavaScript Number is an IEEE 754 double: a finite value, kept as the rational number
  it is, one of the two infinities, or NaN. \<open>js_add\<close>, \<open>js_sub\<close>, \<open>js_mul\<close> and \<open>js_div\<close> give
  the exact result of an operation, with the IEEE 754 case analysis for zero divisors,
  infinities and NaN. \<open>double\<close> rounds a rational to the nearest double, and \<open>add64\<close>,
  \<open>sub64\<close>, \<open>mul64\<close> and \<open>div64\<close> are the operations as the program computes them: the
  exact result, rounded. The sign of zero is not modelled.
\<close>

datatype jsnum = Fin rat | PosInf | NegInf | NaN

fun js_neg :: "jsnum \<Rightarrow> jsnum" where
  "js_neg (Fin a) = Fin (- a)"
| "js_neg PosInf = NegInf"
| "js_neg NegInf = PosInf"
| "js_neg NaN = NaN"

fun js_add :: "jsnum \<Rightarrow> jsnum \<Rightarrow> jsnum" where
  "js_add (Fin a) (Fin b) = Fin (a + b)"
| "js_add NaN _ = NaN"
| "js_add _ NaN = NaN"
| "js_add PosInf NegInf = NaN"
| "js_add NegInf PosInf = NaN"
| "js_add PosInf _ = PosInf"
| "js_add NegInf _ = NegInf"
| "js_add (Fin a) b = b"

definition js_sub :: "jsnum \<Rightarrow> jsnum \<Rightarrow> jsnum" where
  "js_sub a b = js_add a (js_neg b)"

text \<open>The sign of an infinite product or quotient: positive when \<open>0 < a\<close>.\<close>

definition signed_inf :: "bool \<Rightarrow> jsnum" where
  "signed_inf positive = (if positive then PosInf else NegInf)"

fun js_mul :: "jsnum \<Rightarrow> jsnum \<Rightarrow> jsnum" where
  "js_mul (Fin a) (Fin b) = Fin (a * b)"
| "js_mul NaN _ = NaN"
| "js_mul _ NaN = NaN"
| "js_mul (Fin a) PosInf = (if a = 0 then NaN else signed_inf (0 < a))"
| "js_mul (Fin a) NegInf = (if a = 0 then NaN else signed_inf (a < 0))"
| "js_mul PosInf (Fin b) = (if b = 0 then NaN else signed_inf (0 < b))"
| "js_mul NegInf (Fin b) = (if b = 0 then NaN else signed_inf (b < 0))"
| "js_mul PosInf PosInf = PosInf"
| "js_mul PosInf NegInf = NegInf"
| "js_mul NegInf PosInf = NegInf"
| "js_mul NegInf NegInf = PosInf"

fun js_div :: "jsnum \<Rightarrow> jsnum \<Rightarrow> jsnum" where
  "js_div (Fin a) (Fin b) =
     (if b = 0 then (if a = 0 then NaN else signed_inf (0 < a)) else Fin (a / b))"
| "js_div NaN _ = NaN"
| "js_div _ NaN = NaN"
| "js_div (Fin a) PosInf = Fin 0"
| "js_div (Fin a) NegInf = Fin 0"
| "js_div PosInf (Fin b) = signed_inf (0 \<le> b)"
| "js_div NegInf (Fin b) = signed_inf (b < 0)"
| "js_div PosInf PosInf = NaN"
| "js_div PosInf NegInf = NaN"
| "js_div NegInf PosInf = NaN"
| "js_div NegInf NegInf = NaN"

text \<open>The comparison \<open>a > b\<close>: false as soon as one side is NaN.\<close>

fun js_gt :: "jsnum \<Rightarrow> jsnum \<Rightarrow> bool" where
  "js_gt (Fin a) (Fin b) = (b < a)"
| "js_gt NaN _ = False"
| "js_gt _ NaN = False"
| "js_gt PosInf PosInf = False"
| "js_gt PosInf _ = True"
| "js_gt _ PosInf = False"
| "js_gt NegInf _ = False"
| "js_gt (Fin a) NegInf = True"

text \<open>\<open>Math.round\<close>: the nearest integer, a half rounded towards plus infinity.\<close>

fun Math_round :: "jsnum \<Rightarrow> jsnum" where
  "Math_round (Fin x) = Fin (of_int \<lfloor>x + 1 / 2\<rfloor>)"
| "Math_round PosInf = PosInf"
| "Math_round NegInf = NegInf"
| "Math_round NaN = NaN"

definition js_int :: "int \<Rightarrow> jsnum" where
  "js_int n = Fin (of_int n)"

subsection \<open>Rounding to a double\<close>

text \<open>
  The exponent of a rational other than 0: the \<open>e\<close> with \<open>2^e \<le> \<bar>x\<bar> < 2^(e+1)\<close>, found from the
  bit lengths of the numerator and the denominator.
\<close>

definition exponent :: "rat \<Rightarrow> int" where
  "exponent x =
     (case quotient_of \<bar>x\<bar> of
        (p, q) \<Rightarrow> let e = bitlen p - bitlen q in if 2 powi e \<le> \<bar>x\<bar> then e else e - 1)"

text \<open>The nearest integer, the even one of the two when they are equally near.\<close>

definition round_even :: "rat \<Rightarrow> int" where
  "round_even y =
     (let f = \<lfloor>y\<rfloor>; r = y - of_int f
      in if r < 1 / 2 then f else if 1 / 2 < r then f + 1 else if even f then f else f + 1)"

text \<open>
  Round to nearest, ties to even, with 53 bits of precision: the doubles around \<open>x\<close> are
  the multiples of \<open>2^(e-52)\<close>, where \<open>e\<close> is the exponent of \<open>x\<close> and at least \<open>-1022\<close> (below
  that the doubles are subnormal, spaced by \<open>2^(-1074)\<close>). A value that rounds to
  \<open>2^1024\<close> or beyond becomes an infinity.
\<close>

definition double :: "rat \<Rightarrow> jsnum" where
  "double x =
     (if x = 0 then Fin 0
      else let ulp = 2 powi (max (exponent x) (- 1022) - 52);
               y = of_int (round_even (x / ulp)) * ulp
           in if 1024 \<le> exponent y then signed_inf (0 < x) else Fin y)"

fun round64 :: "jsnum \<Rightarrow> jsnum" where
  "round64 (Fin x) = double x"
| "round64 PosInf = PosInf"
| "round64 NegInf = NegInf"
| "round64 NaN = NaN"

definition add64 :: "jsnum \<Rightarrow> jsnum \<Rightarrow> jsnum" where
  "add64 a b = round64 (js_add a b)"

definition sub64 :: "jsnum \<Rightarrow> jsnum \<Rightarrow> jsnum" where
  "sub64 a b = round64 (js_sub a b)"

definition mul64 :: "jsnum \<Rightarrow> jsnum \<Rightarrow> jsnum" where
  "mul64 a b = round64 (js_mul a b)"

definition div64 :: "jsnum \<Rightarrow> jsnum \<Rightarrow> jsnum" where
  "div64 a b = round64 (js_div a b)"

section \<open>JavaScript strings\<close>

text \<open>\<open>String.prototype.charAt\<close>: the empty string outside the string.\<close>

definition charAt :: "string \<Rightarrow> int \<Rightarrow> string" where
  "charAt s i = (if 0 \<le> i \<and> i < int (length s) then [s ! nat i] else [])"

text \<open>
  A non-negative integer in a template literal (\<open>`scan:key:${n}`\<close>) is written in
  decimal; so is every integer below \<open>10^21\<close>.
\<close>

fun show_nat :: "nat \<Rightarrow> string" where
  "show_nat n =
     (if n < 10 then [''0123456789'' ! n]
      else show_nat (n div 10) @ [''0123456789'' ! (n mod 10)])"

declare show_nat.simps [simp del]

text \<open>
  \<open>Number.prototype.toFixed(0)\<close> of a finite number of magnitude below \<open>10^21\<close>:
  the digits of the nearest integer, the larger one when two are equally near, after the
  sign has been put aside.
\<close>

definition toFixed0 :: "rat \<Rightarrow> string" where
  "toFixed0 x =
     (if x < 0 then CHR ''-'' # show_nat (nat \<lfloor>- x + 1 / 2\<rfloor>)
      else show_nat (nat \<lfloor>x + 1 / 2\<rfloor>))"

section \<open>The environment: servers, network, clock, random source\<close>

text \<open>
  The two key-value servers are outside the repository. The code reads nothing of their
  replies except the reply of SCAN and KEYS, so a server is modelled by its key space
  alone: the keys it holds, laid out in \<open>nbuckets\<close> hash buckets (\<open>bucket\<close> is the hash
  function), which is what a SCAN cursor walks.
\<close>

type_synonym port = nat

record server =
  keyspace :: "string list"
  nbuckets :: nat
  bucket :: "string \<Rightarrow> nat"
  connections :: nat

datatype command =
    SET string string
  | GET string
  | INCR string
  | LPUSH string string
  | HSET string string string
  | ZADD string rat string
  | MSET "(string \<times> string) list"
  | MGET "string list"
  | DEL "string list"
  | KEYS string
  | SCAN nat string nat
  | INFO string
  | DBSIZE
  | ZREVRANGE string int int
  | ZRANGEBYSCORE string int int int int
  | ZCOUNT string int int

datatype reply =
    Status
  | Bulk
  | Integer nat
  | Array "string list"
  | Cursor nat "string list"
  | ErrorReply

text \<open>
  Glob-style matching of a key against a pattern: \<open>*\<close> matches any run of characters,
  \<open>?\<close> one character, every other character itself (the patterns of the code use
  \<open>*\<close> only).
\<close>

fun glob :: "string \<Rightarrow> string \<Rightarrow> bool" where
  "glob [] [] = True"
| "glob [] (c # s) = False"
| "glob (p # ps) [] = (p = CHR ''*'' \<and> glob ps [])"
| "glob (p # ps) (c # s) =
     (if p = CHR ''*'' then glob ps (c # s) \<or> glob (p # ps) s
      else (p = CHR ''?'' \<or> p = c) \<and> glob ps s)"

text \<open>The keys a command creates when they are not there yet.\<close>

fun written :: "command \<Rightarrow> string list" where
  "written (SET k v) = [k]"
| "written (INCR k) = [k]"
| "written (LPUSH k v) = [k]"
| "written (HSET k f v) = [k]"
| "written (ZADD k score m) = [k]"
| "written (MSET kvs) = map fst kvs"
| "written _ = []"

definition add_keys :: "string list \<Rightarrow> string list \<Rightarrow> string list" where
  "add_keys ks store = fold List.insert ks store"

text \<open>
  One SCAN call returns the matching keys of the bucket the cursor names, and the next
  bucket as the new cursor, 0 after the last bucket. COUNT is a hint the server may
  ignore.
\<close>

definition scan_page :: "server \<Rightarrow> nat \<Rightarrow> string \<Rightarrow> string list" where
  "scan_page sv cursor pattern =
     filter (\<lambda>k. bucket sv k mod nbuckets sv = cursor \<and> glob pattern k) (keyspace sv)"

definition next_cursor :: "server \<Rightarrow> nat \<Rightarrow> nat" where
  "next_cursor sv cursor = (if Suc cursor < nbuckets sv then Suc cursor else 0)"

text \<open>
  DEL, MSET and MGET with no argument at all are answered with an error; the commands
  that create keys are answered with a status, the reads with data the code ignores.
\<close>

fun serve :: "command \<Rightarrow> server \<Rightarrow> reply \<times> server" where
  "serve (DEL ks) sv =
     (if ks = [] then (ErrorReply, sv)
      else (Integer (length (filter (\<lambda>k. k \<in> set ks) (keyspace sv))),
            sv\<lparr>keyspace := filter (\<lambda>k. k \<notin> set ks) (keyspace sv)\<rparr>))"
| "serve (MSET []) sv = (ErrorReply, sv)"
| "serve (MGET []) sv = (ErrorReply, sv)"
| "serve (KEYS pattern) sv = (Array (filter (glob pattern) (keyspace sv)), sv)"
| "serve (SCAN cursor pattern count) sv =
     (Cursor (next_cursor sv cursor) (scan_page sv cursor pattern), sv)"
| "serve DBSIZE sv = (Integer (length (keyspace sv)), sv)"
| "serve (GET k) sv = (Bulk, sv)"
| "serve (MGET ks) sv = (Array [], sv)"
| "serve (INFO section) sv = (Bulk, sv)"
| "serve (ZREVRANGE k start stop) sv = (Array [], sv)"
| "serve (ZRANGEBYSCORE k lo hi offset count) sv = (Array [], sv)"
| "serve (ZCOUNT k lo hi) sv = (Integer 0, sv)"
| "serve cmd sv = (Status, sv\<lparr>keyspace := add_keys (written cmd) (keyspace sv)\<rparr>)"

fun serve_all :: "command list \<Rightarrow> server \<Rightarrow> reply list \<times> server" where
  "serve_all [] sv = ([], sv)"
| "serve_all (cmd # cmds) sv =
     (case serve cmd sv of (r, sv1) \<Rightarrow>
        (case serve_all cmds sv1 of (rs, sv2) \<Rightarrow> (r # rs, sv2)))"

text \<open>
  The rest of the environment is a schedule the program cannot influence: which network
  interactions fail (\<open>faults\<close>, by their number in the order they are made), what
  \<open>performance.now()\<close> reads, and what \<open>Math.random()\<close> draws.
\<close>

datatype error =
    ConnectionError port
  | CommandError
  | TypeError
  | ProcessExit int

datatype scenario =
    ConcurrentScan | KeysPattern | MemoryInfo | BulkOperations | SortedSetQueries
  | PipelinedMixed

record result =
  duration :: jsnum
  opsPerSecond :: jsnum
  totalOps :: int

datatype endpoint = Redis | DragonflyDB

record table_row =
  operation :: string
  redisCell :: jsnum
  dragonflyCell :: jsnum
  winner :: endpoint
  ratio :: jsnum

record stats =
  dragonflyWins :: nat
  redisWins :: nat
  dragonflySpeedups :: "jsnum list"
  totalTests :: nat

text \<open>
  What the terminal shows is kept as a list of events that carry the data shown; the
  colours and the layout of the text are left out.
\<close>

datatype event =
    Heading string
  | SpinnerStart string
  | SpinnerSucceed string
  | SpinnerFail string
  | ConsoleLog string
  | ScenarioStart scenario string
  | ScenarioProgress scenario string
  | ScenarioDone scenario string result
  | ComparisonTable "table_row list"
  | BarChart "string list"
  | BlogSummary stats

record world =
  servers :: "port \<Rightarrow> server"
  faults :: "nat \<Rightarrow> bool"
  requests :: nat
  clock :: "nat \<Rightarrow> rat"
  readings :: nat
  entropy :: "nat \<Rightarrow> rat"
  draws :: nat
  console :: "event list"

type_synonym 'a io = "world \<Rightarrow> (error + 'a) \<times> world"

definition ret :: "'a \<Rightarrow> 'a io" where
  "ret x w = (Inr x, w)"

definition throw :: "error \<Rightarrow> 'a io" where
  "throw e w = (Inl e, w)"

text \<open>Sequencing: a rejection or exception skips the rest.\<close>

definition io_bind :: "'a io \<Rightarrow> ('a \<Rightarrow> 'b io) \<Rightarrow> 'b io" where
  "io_bind m f w = (case m w of (Inl e, w1) \<Rightarrow> (Inl e, w1) | (Inr x, w1) \<Rightarrow> f x w1)"

definition io_then :: "unit io \<Rightarrow> 'b io \<Rightarrow> 'b io" where
  "io_then m k = io_bind m (\<lambda>_. k)"

text \<open>\<open>try { m } catch (error) { h }\<close>; \<open>process.exit\<close> is not an exception.\<close>

definition io_catch :: "'a io \<Rightarrow> (error \<Rightarrow> 'a io) \<Rightarrow> 'a io" where
  "io_catch m h w =
     (case m w of
        (Inl (ProcessExit n), w1) \<Rightarrow> (Inl (ProcessExit n), w1)
      | (Inl e, w1) \<Rightarrow> h e w1
      | (Inr x, w1) \<Rightarrow> (Inr x, w1))"

text \<open>\<open>for (let i = start; ...; i++)\<close> run \<open>n\<close> times over a loop-carried value.\<close>

fun for_loop :: "nat \<Rightarrow> nat \<Rightarrow> (nat \<Rightarrow> 's \<Rightarrow> 's io) \<Rightarrow> 's \<Rightarrow> 's io" where
  "for_loop i 0 body s = ret s"
| "for_loop i (Suc n) body s = io_bind (body i s) (for_loop (Suc i) n body)"

text \<open>\<open>for (let i = 0; i < n; i++)\<close> with no loop-carried value.\<close>

definition for_range :: "nat \<Rightarrow> (nat \<Rightarrow> unit io) \<Rightarrow> unit io" where
  "for_range n body = for_loop 0 n (\<lambda>i u. body i) ()"

text \<open>
  \<open>for (let batch = 0; batch < bound; batch += 5000)\<close>, the loop of both population
  phases.
\<close>

function for_batches :: "nat \<Rightarrow> nat \<Rightarrow> (nat \<Rightarrow> unit io) \<Rightarrow> unit io" where
  "for_batches batch bound body =
     (if batch < bound then io_then (body batch) (for_batches (batch + 5000) bound body)
      else ret ())"
  by pat_completeness auto
termination
  by (relation "measure (\<lambda>(batch, bound, body). bound - batch)") auto

declare for_batches.simps [simp del]

text \<open>
  \<open>Promise.all(clients.map(async (client, clientIdx) => ...))\<close>: the clients' tasks run
  concurrently in the program; here they run one after the other in the order of the
  array, and the first rejection ends the whole.
\<close>

fun for_each :: "nat \<Rightarrow> 'a list \<Rightarrow> (nat \<Rightarrow> 'a \<Rightarrow> unit io) \<Rightarrow> unit io" where
  "for_each i [] body = ret ()"
| "for_each i (x # xs) body = io_then (body i x) (for_each (Suc i) xs body)"

text \<open>
  \<open>performance.now()\<close>: the next reading of the clock, the double nearest to the value the
  world holds for it.
\<close>

definition performance_now :: "jsnum io" where
  "performance_now w =
     (Inr (double (clock w (readings w))), w\<lparr>readings := Suc (readings w)\<rparr>)"

definition Math_random :: "rat io" where
  "Math_random w = (Inr (entropy w (draws w)), w\<lparr>draws := Suc (draws w)\<rparr>)"

definition emit :: "event \<Rightarrow> unit io" where
  "emit e w = (Inr (), w\<lparr>console := console w @ [e]\<rparr>)"

section \<open>Workload generator\<close>

definition chars :: string where
  "chars = ''ABCDEFGHIJKLMNOPQRSTUVWXYZabcdefghijklmnopqrstuvwxyz0123456789''"

text \<open>The body of the loop of \<open>generateValue\<close>: one more random character.\<close>

definition draw_char :: "nat \<Rightarrow> string \<Rightarrow> string io" where
  "draw_char i result =
     io_bind Math_random
       (\<lambda>r. ret (result @ charAt chars \<lfloor>r * of_nat (length chars)\<rfloor>))"

definition generateValue :: "int \<Rightarrow> string io" where
  "generateValue sz = for_loop 0 (nat sz) draw_char ''''"

section \<open>Client pool\<close>

record client =
  cport :: port
  ready :: bool

text \<open>\<open>new Redis({ host, port, lazyConnect: true })\<close>: a client that is not connected.\<close>

definition new_Redis :: "port \<Rightarrow> client" where
  "new_Redis p = \<lparr>cport = p, ready = False\<rparr>"

definition on_server :: "port \<Rightarrow> (server \<Rightarrow> server) \<Rightarrow> world \<Rightarrow> world" where
  "on_server p f w = w\<lparr>servers := (servers w)(p := f (servers w p))\<rparr>"

text \<open>
  \<open>await client.connect()\<close>: one network interaction; it rejects when the schedule has
  a fault there, and otherwise the client is ready.
\<close>

definition connect :: "client \<Rightarrow> client io" where
  "connect c w =
     (let w1 = w\<lparr>requests := Suc (requests w)\<rparr> in
      if faults w (requests w) then (Inl (ConnectionError (cport c)), w1)
      else (Inr (c\<lparr>ready := True\<rparr>),
            on_server (cport c) (\<lambda>sv. sv\<lparr>connections := Suc (connections sv)\<rparr>) w1))"

definition disconnect :: "client \<Rightarrow> unit io" where
  "disconnect c w =
     (Inr (), on_server (cport c) (\<lambda>sv. sv\<lparr>connections := connections sv - 1\<rparr>) w)"

text \<open>
  One command and its reply: one network interaction. The promise rejects on a fault
  and on an error reply.
\<close>

definition call :: "client \<Rightarrow> command \<Rightarrow> reply io" where
  "call c cmd w =
     (let w1 = w\<lparr>requests := Suc (requests w)\<rparr> in
      if faults w (requests w) then (Inl CommandError, w1)
      else (case serve cmd (servers w1 (cport c)) of
              (ErrorReply, sv) \<Rightarrow> (Inl CommandError, on_server (cport c) (\<lambda>_. sv) w1)
            | (r, sv) \<Rightarrow> (Inr r, on_server (cport c) (\<lambda>_. sv) w1)))"

text \<open>
  \<open>await pipeline.exec()\<close>: the queued commands go out together, one network
  interaction; errors of single commands come back in the replies and reject nothing.
\<close>

definition exec :: "client \<Rightarrow> command list \<Rightarrow> reply list io" where
  "exec c cmds w =
     (let w1 = w\<lparr>requests := Suc (requests w)\<rparr> in
      if faults w (requests w) then (Inl CommandError, w1)
      else (case serve_all cmds (servers w1 (cport c)) of
              (rs, sv) \<Rightarrow> (Inr rs, on_server (cport c) (\<lambda>_. sv) w1)))"

text \<open>
  \<open>const [newCursor, keys] = await client.scan(cursor, 'MATCH', pattern, 'COUNT', count)\<close>.
  The cursor is a decimal string in the program and a number here; \<open>'0'\<close> is 0.
\<close>

definition scan :: "client \<Rightarrow> nat \<Rightarrow> string \<Rightarrow> nat \<Rightarrow> (nat \<times> string list) io" where
  "scan c cursor pattern count =
     io_bind (call c (SCAN cursor pattern count))
       (\<lambda>r. case r of Cursor newCursor ks \<Rightarrow> ret (newCursor, ks) | _ \<Rightarrow> throw TypeError)"

text \<open>The body of the loop of \<open>createClients\<close>: one more connected client.\<close>

definition connect_one :: "port \<Rightarrow> nat \<Rightarrow> client list \<Rightarrow> client list io" where
  "connect_one p i clients =
     io_bind (connect (new_Redis p)) (\<lambda>client. ret (clients @ [client]))"

definition createClients :: "port \<Rightarrow> int \<Rightarrow> client list io" where
  "createClients p count = for_loop 0 (nat count) (connect_one p) []"

definition closeClients :: "client list \<Rightarrow> unit io" where
  "closeClients clients = for_each 0 clients (\<lambda>i c. disconnect c)"

text \<open>\<open>clients[0]\<close>: undefined when the pool is empty, and using it then throws.\<close>

definition first_client :: "client list \<Rightarrow> client option" where
  "first_client clients = (case clients of [] \<Rightarrow> None | c # _ \<Rightarrow> Some c)"

definition using_client :: "client option \<Rightarrow> (client \<Rightarrow> 'a io) \<Rightarrow> 'a io" where
  "using_client c f = (case c of None \<Rightarrow> throw TypeError | Some x \<Rightarrow> f x)"

section \<open>Scenario runners\<close>

definition REDIS_PORT :: port where
  "REDIS_PORT = 6379"

definition DRAGONFLY_PORT :: port where
  "DRAGONFLY_PORT = 6380"

text \<open>\<open>Math.round((totalOps / duration) * 1000)\<close>, the duration in milliseconds.\<close>

definition ops_per_second :: "int \<Rightarrow> jsnum \<Rightarrow> jsnum" where
  "ops_per_second n elapsed = Math_round (mul64 (div64 (js_int n) elapsed) (Fin 1000))"

subsection \<open>Benchmark 1: concurrent SCAN\<close>

definition scan_key :: "nat \<Rightarrow> string" where
  "scan_key n = ''scan:key:'' @ show_nat n"

text \<open>
  The \<open>do ... while (cursor !== '0')\<close> loop of one scan pass, from the cursor given;
  \<open>totalKeys\<close> is carried along.
\<close>

lemma scan_advances:
  assumes "scan c cursor pattern count w = (Inr (newCursor, ks), w1)" and "newCursor \<noteq> 0"
  shows "nbuckets (servers w1 (cport c)) = nbuckets (servers w (cport c)) \<and>
         newCursor = Suc cursor \<and> Suc cursor < nbuckets (servers w (cport c))"
  using assms
  by (auto simp: scan_def io_bind_def call_def Let_def on_server_def next_cursor_def ret_def
        throw_def split: if_splits prod.splits reply.splits sum.splits)

function scan_pass :: "client \<Rightarrow> nat \<Rightarrow> nat \<Rightarrow> nat io" where
  "scan_pass client cursor totalKeys w =
     (case scan client cursor ''scan:*'' 500 w of
        (Inl e, w1) \<Rightarrow> (Inl e, w1)
      | (Inr (newCursor, ks), w1) \<Rightarrow>
          if newCursor \<noteq> 0 then scan_pass client newCursor (totalKeys + length ks) w1
          else (Inr (totalKeys + length ks), w1))"
  by pat_completeness auto
termination
proof (relation "measure (\<lambda>(client, cursor, totalKeys, w).
         nbuckets (servers w (cport client)) - cursor)", goal_cases)
  case 1
  show ?case by simp
next
  case (2 client cursor totalKeys w x1 w1 x2 newCursor ks)
  then have "scan client cursor ''scan:*'' 500 w = (Inr (newCursor, ks), w1)" by simp
  from scan_advances[OF this] 2 show ?case by auto
qed

declare scan_pass.simps [simp del]

definition benchmarkConcurrentScan :: "port \<Rightarrow> string \<Rightarrow> int \<Rightarrow> int \<Rightarrow> result io" where
  "benchmarkConcurrentScan p label numClients keysToCreate =
     io_then (emit (ScenarioStart ConcurrentScan label))
    (io_bind (createClients p numClients) (\<lambda>clients.
     io_bind (generateValue 256) (\<lambda>value.
     io_then (for_batches 0 (nat keysToCreate) (\<lambda>batch.
        using_client (first_client clients) (\<lambda>setupClient.
          io_bind (exec setupClient
                     (map (\<lambda>i. SET (scan_key (batch + i)) value)
                        [0 ..< min 5000 (nat keysToCreate - batch)]))
            (\<lambda>_. ret ()))))
    (io_then (emit (ScenarioProgress ConcurrentScan label))
    (io_bind performance_now (\<lambda>start.
     io_then (for_each 0 clients (\<lambda>idx client.
        io_bind (for_loop 0 10 (\<lambda>round totalKeys. scan_pass client 0 totalKeys) 0)
          (\<lambda>totalKeys. ret ())))
    (io_bind performance_now (\<lambda>end.
     let duration = sub64 end start;
         scansPerSecond =
           Math_round (div64 (js_int (numClients * 10)) (div64 duration (Fin 1000)));
         res = \<lparr>duration = duration, opsPerSecond = scansPerSecond,
                 totalOps = numClients * 10\<rparr>
     in io_then (closeClients clients)
       (io_then (emit (ScenarioDone ConcurrentScan label res))
       (ret res))))))))))"

subsection \<open>Benchmark 2: KEYS pattern matching\<close>

definition benchmarkKeysPattern :: "port \<Rightarrow> string \<Rightarrow> int \<Rightarrow> int \<Rightarrow> result io" where
  "benchmarkKeysPattern p label numClients iterations =
     io_then (emit (ScenarioStart KeysPattern label))
    (io_bind (createClients p numClients) (\<lambda>clients.
     io_bind performance_now (\<lambda>start.
     io_then (for_each 0 clients (\<lambda>idx client.
        for_range (nat iterations) (\<lambda>i.
          io_bind (call client (KEYS ''scan:key:*'')) (\<lambda>_. ret ()))))
    (io_bind performance_now (\<lambda>end.
     let duration = sub64 end start;
         totalOps = numClients * iterations;
         res = \<lparr>duration = duration, opsPerSecond = ops_per_second totalOps duration,
                 totalOps = totalOps\<rparr>
     in io_then (closeClients clients)
       (io_then (emit (ScenarioDone KeysPattern label res))
       (ret res)))))))"

subsection \<open>Benchmark 3: memory info\<close>

definition benchmarkMemoryInfo :: "port \<Rightarrow> string \<Rightarrow> int \<Rightarrow> int \<Rightarrow> result io" where
  "benchmarkMemoryInfo p label numClients iterations =
     io_then (emit (ScenarioStart MemoryInfo label))
    (io_bind (createClients p numClients) (\<lambda>clients.
     io_bind performance_now (\<lambda>start.
     io_then (for_each 0 clients (\<lambda>idx client.
        for_range (nat iterations) (\<lambda>i.
          io_bind (call client (INFO ''memory'')) (\<lambda>_.
          io_bind (call client DBSIZE) (\<lambda>_. ret ())))))
    (io_bind performance_now (\<lambda>end.
     let duration = sub64 end start;
         totalOps = numClients * iterations * 2;
         res = \<lparr>duration = duration, opsPerSecond = ops_per_second totalOps duration,
                 totalOps = totalOps\<rparr>
     in io_then (closeClients clients)
       (io_then (emit (ScenarioDone MemoryInfo label res))
       (ret res)))))))"

subsection \<open>Benchmark 4: bulk MSET/MGET\<close>

definition bulk_key :: "nat \<Rightarrow> nat \<Rightarrow> string" where
  "bulk_key iter i = ''bulk:'' @ show_nat iter @ '':'' @ show_nat i"

definition benchmarkBulkOperations :: "port \<Rightarrow> string \<Rightarrow> int \<Rightarrow> int \<Rightarrow> result io" where
  "benchmarkBulkOperations p label batchSize iterations =
     io_then (emit (ScenarioStart BulkOperations label))
    (io_bind (connect (new_Redis p)) (\<lambda>client.
     io_bind (generateValue 1024) (\<lambda>value.
     io_bind performance_now (\<lambda>start.
     io_then (for_range (nat iterations) (\<lambda>iter.
        io_bind (call client (MSET (map (\<lambda>i. (bulk_key iter i, value)) [0 ..< nat batchSize])))
          (\<lambda>_.
        io_bind (call client (MGET (map (\<lambda>i. bulk_key iter i) [0 ..< nat batchSize])))
          (\<lambda>_. ret ()))))
    (io_bind performance_now (\<lambda>end.
     let duration = sub64 end start;
         totalOps = iterations * batchSize * 2;
         res = \<lparr>duration = duration, opsPerSecond = ops_per_second totalOps duration,
                 totalOps = totalOps\<rparr>
     in io_then (disconnect client)
       (io_then (emit (ScenarioDone BulkOperations label res))
       (ret res))))))))"

subsection \<open>Benchmark 5: sorted set range queries\<close>

definition add_player :: "nat \<Rightarrow> nat \<Rightarrow> command list \<Rightarrow> command list io" where
  "add_player batch i pipeline =
     io_bind Math_random (\<lambda>r.
       ret (pipeline @ [ZADD ''leaderboard:main'' (r * 1000000) (''player:'' @ show_nat (batch + i))]))"

definition benchmarkSortedSetQueries ::
    "port \<Rightarrow> string \<Rightarrow> int \<Rightarrow> int \<Rightarrow> int \<Rightarrow> result io" where
  "benchmarkSortedSetQueries p label setSize numClients queriesPerClient =
     io_then (emit (ScenarioStart SortedSetQueries label))
    (io_bind (createClients p numClients) (\<lambda>clients.
     io_then (for_batches 0 (nat setSize) (\<lambda>batch.
        using_client (first_client clients) (\<lambda>setupClient.
          io_bind (for_loop 0 (min 5000 (nat setSize - batch)) (add_player batch) [])
            (\<lambda>pipeline. io_bind (exec setupClient pipeline) (\<lambda>_. ret ())))))
    (io_then (emit (ScenarioProgress SortedSetQueries label))
    (io_bind performance_now (\<lambda>start.
     io_then (for_each 0 clients (\<lambda>idx client.
        for_range (nat queriesPerClient) (\<lambda>i.
          io_bind (call client (ZREVRANGE ''leaderboard:main'' 0 99)) (\<lambda>_.
          io_bind (call client (ZRANGEBYSCORE ''leaderboard:main'' 0 500000 0 100)) (\<lambda>_.
          io_bind (call client (ZCOUNT ''leaderboard:main'' 0 500000)) (\<lambda>_. ret ()))))))
    (io_bind performance_now (\<lambda>end.
     let duration = sub64 end start;
         totalOps = numClients * queriesPerClient * 3;
         res = \<lparr>duration = duration, opsPerSecond = ops_per_second totalOps duration,
                 totalOps = totalOps\<rparr>
     in io_then (closeClients clients)
       (io_then (emit (ScenarioDone SortedSetQueries label res))
       (ret res)))))))))"

subsection \<open>Benchmark 6: pipelined mixed workload\<close>

definition mixed_commands :: "nat \<Rightarrow> nat \<Rightarrow> string \<Rightarrow> nat \<Rightarrow> command list" where
  "mixed_commands clientIdx p value i =
     (let key = ''mixed:'' @ show_nat clientIdx @ '':'' @ show_nat p @ '':'' @ show_nat i
      in [SET key value,
          GET key,
          INCR (''counter:'' @ show_nat clientIdx),
          LPUSH (''list:'' @ show_nat clientIdx) (''item-'' @ show_nat i),
          HSET (''hash:'' @ show_nat clientIdx) (''field-'' @ show_nat i) value])"

definition benchmarkPipelinedMixed :: "port \<Rightarrow> string \<Rightarrow> int \<Rightarrow> int \<Rightarrow> result io" where
  "benchmarkPipelinedMixed p label numClients pipelinesPerClient =
     io_then (emit (ScenarioStart PipelinedMixed label))
    (io_bind (createClients p numClients) (\<lambda>clients.
     io_bind (generateValue 512) (\<lambda>value.
     io_bind performance_now (\<lambda>start.
     io_then (for_each 0 clients (\<lambda>clientIdx client.
        for_range (nat pipelinesPerClient) (\<lambda>p.
          io_bind (exec client (concat (map (mixed_commands clientIdx p value) [0 ..< 50])))
            (\<lambda>_. ret ()))))
    (io_bind performance_now (\<lambda>end.
     let duration = sub64 end start;
         totalOps = numClients * pipelinesPerClient * 50 * 5;
         res = \<lparr>duration = duration, opsPerSecond = ops_per_second totalOps duration,
                 totalOps = totalOps\<rparr>
     in io_then (closeClients clients)
       (io_then (emit (ScenarioDone PipelinedMixed label res))
       (ret res))))))))"

section \<open>Cleanup\<close>

definition patterns :: "string list" where
  "patterns = [''scan:*'', ''bulk:*'', ''leaderboard:*'', ''mixed:*'', ''counter:*'',
               ''list:*'', ''hash:*'']"

text \<open>\<open>if (keys.length > 0) { await client.del(...keys); }\<close>\<close>

definition del_keys :: "client \<Rightarrow> string list \<Rightarrow> unit io" where
  "del_keys client ks =
     (if length ks > 0 then io_bind (call client (DEL ks)) (\<lambda>_. ret ()) else ret ())"

lemma serve_nbuckets: "nbuckets (snd (serve cmd sv)) = nbuckets sv"
  by (induction cmd sv rule: serve.induct) simp_all

lemma del_keys_nbuckets:
  "del_keys c ks w1 = (r, w2) \<Longrightarrow> nbuckets (servers w2 p) = nbuckets (servers w1 p)"
  using serve_nbuckets[of "DEL ks" "servers w1 (cport c)"]
  by (auto simp: del_keys_def io_bind_def call_def Let_def on_server_def ret_def
        split: if_splits prod.splits reply.splits sum.splits)

text \<open>The \<open>do ... while (cursor !== '0')\<close> loop of \<open>cleanup\<close> for one pattern.\<close>

function cleanup_scan :: "client \<Rightarrow> string \<Rightarrow> nat \<Rightarrow> unit io" where
  "cleanup_scan client pattern cursor w =
     (case scan client cursor pattern 1000 w of
        (Inl e, w1) \<Rightarrow> (Inl e, w1)
      | (Inr (newCursor, ks), w1) \<Rightarrow>
          (case del_keys client ks w1 of
             (Inl e, w2) \<Rightarrow> (Inl e, w2)
           | (Inr u, w2) \<Rightarrow>
               if newCursor \<noteq> 0 then cleanup_scan client pattern newCursor w2
               else (Inr (), w2)))"
  by pat_completeness auto
termination
proof (relation "measure (\<lambda>(client, pattern, cursor, w).
         nbuckets (servers w (cport client)) - cursor)", goal_cases)
  case 1
  show ?case by simp
next
  case (2 client pattern cursor w x1 w1 x2 newCursor ks y1 w2 u)
  then have s: "scan client cursor pattern 1000 w = (Inr (newCursor, ks), w1)"
    and d: "del_keys client ks w1 = (Inr u, w2)"
    by simp_all
  from scan_advances[OF s] del_keys_nbuckets[OF d, of "cport client"] 2 show ?case by auto
qed

declare cleanup_scan.simps [simp del]

definition cleanup :: "client \<Rightarrow> unit io" where
  "cleanup client = for_each 0 patterns (\<lambda>i pattern. cleanup_scan client pattern 0)"

section \<open>Comparison of the two endpoints\<close>

record comparison =
  redis :: result
  dragonfly :: result

definition isDragonflyWinner :: "comparison \<Rightarrow> bool" where
  "isDragonflyWinner data = js_gt (opsPerSecond (dragonfly data)) (opsPerSecond (redis data))"

text \<open>The row the loop of \<open>printComparisonTable\<close> pushes for one entry of the results.\<close>

definition compare_row :: "string \<Rightarrow> comparison \<Rightarrow> table_row" where
  "compare_row name data =
     (let redisOps = opsPerSecond (redis data);
          dragonflyOps = opsPerSecond (dragonfly data)
      in \<lparr>operation = name, redisCell = redisOps, dragonflyCell = dragonflyOps,
          winner = (if isDragonflyWinner data then DragonflyDB else Redis),
          ratio = (if isDragonflyWinner data then js_div dragonflyOps redisOps
                   else js_div redisOps dragonflyOps)\<rparr>)"

definition table_step ::
    "string \<times> comparison \<Rightarrow> table_row list \<times> stats \<Rightarrow> table_row list \<times> stats" where
  "table_step entry acc =
     (case (entry, acc) of
        ((name, data), (table, st)) \<Rightarrow>
          let row = compare_row name data
          in (table @ [row],
              if isDragonflyWinner data
              then st\<lparr>dragonflyWins := dragonflyWins st + 1,
                      dragonflySpeedups := dragonflySpeedups st @ [ratio row]\<rparr>
              else st\<lparr>redisWins := redisWins st + 1\<rparr>))"

text \<open>
  The results are the entries of an object in insertion order, a list of pairs here.
\<close>

definition initial_stats :: "nat \<Rightarrow> stats" where
  "initial_stats n =
     \<lparr>dragonflyWins = 0, redisWins = 0, dragonflySpeedups = [], totalTests = n\<rparr>"

definition printComparisonTable :: "(string \<times> comparison) list \<Rightarrow> stats io" where
  "printComparisonTable results =
     (case fold table_step results ([], initial_stats (length results)) of
        (table, st) \<Rightarrow> io_then (emit (ComparisonTable table)) (ret st))"

text \<open>The bar chart and the summary are text only; the events name what they show.\<close>

definition printBarChart :: "(string \<times> comparison) list \<Rightarrow> unit io" where
  "printBarChart results = emit (BarChart (map fst results))"

definition printBlogSummary :: "stats \<Rightarrow> unit io" where
  "printBlogSummary st = emit (BlogSummary st)"

section \<open>The batch run\<close>

definition connect_databases :: "(client \<times> client) io" where
  "connect_databases =
     io_catch
       (io_bind (connect (new_Redis REDIS_PORT)) (\<lambda>redisClient.
        io_bind (connect (new_Redis DRAGONFLY_PORT)) (\<lambda>dragonflyClient.
        io_then (emit (SpinnerSucceed ''Connected to both Redis and DragonflyDB''))
          (ret (redisClient, dragonflyClient)))))
       (\<lambda>error.
        io_then (emit (SpinnerFail ''Failed to connect to databases''))
       (io_then (emit (ConsoleLog ''Make sure both databases are running:''))
       (io_then (emit (ConsoleLog ''docker compose up -d''))
         (throw (ProcessExit 1)))))"

text \<open>
  One scenario on Redis, then on DragonflyDB, under its title (the line of description
  that follows the title is text only).
\<close>

definition run_pair :: "string \<Rightarrow> (port \<Rightarrow> string \<Rightarrow> result io) \<Rightarrow> comparison io" where
  "run_pair title runner =
     io_then (emit (ConsoleLog title))
    (io_bind (runner REDIS_PORT ''Redis'') (\<lambda>r.
     io_bind (runner DRAGONFLY_PORT ''Dragonfly'') (\<lambda>d.
     ret \<lparr>redis = r, dragonfly = d\<rparr>)))"

definition runBenchmarks :: "unit io" where
  "runBenchmarks =
     io_then (emit (Heading ''When Speed Takes Flight: DragonflyDB vs Redis''))
    (io_then (emit (Heading ''Architecture Comparison''))
    (io_then (emit (SpinnerStart ''Connecting to databases...''))
    (io_bind connect_databases (\<lambda>(redisClient, dragonflyClient).
     io_then (cleanup redisClient)
    (io_then (cleanup dragonflyClient)
    (io_bind (run_pair ''TEST 1: CONCURRENT SCAN OPERATIONS''
               (\<lambda>p label. benchmarkConcurrentScan p label 8 100000)) (\<lambda>r1.
     io_bind (run_pair ''TEST 2: KEYS PATTERN MATCHING''
               (\<lambda>p label. benchmarkKeysPattern p label 8 20)) (\<lambda>r2.
     io_bind (run_pair ''TEST 3: MEMORY INFO COMMANDS''
               (\<lambda>p label. benchmarkMemoryInfo p label 10 100)) (\<lambda>r3.
     io_bind (run_pair ''TEST 4: BULK MSET/MGET''
               (\<lambda>p label. benchmarkBulkOperations p label 500 50)) (\<lambda>r4.
     io_bind (run_pair ''TEST 5: SORTED SET RANGE QUERIES''
               (\<lambda>p label. benchmarkSortedSetQueries p label 100000 6 100)) (\<lambda>r5.
     io_bind (run_pair ''TEST 6: PIPELINED MIXED WORKLOAD''
               (\<lambda>p label. benchmarkPipelinedMixed p label 10 100)) (\<lambda>r6.
     let results =
           [(''Concurrent SCAN\<newline>(100K keys, 8 clients)'', r1),
            (''KEYS Pattern\<newline>(8 clients)'', r2),
            (''Memory Info\<newline>(10 clients)'', r3),
            (''Bulk MSET/MGET\<newline>(500 keys/batch)'', r4),
            (''Sorted Set Queries\<newline>(100K members)'', r5),
            (''Mixed Workload\<newline>(10 clients)'', r6)]
     in io_bind (printComparisonTable results) (\<lambda>st.
        io_then (printBarChart results)
       (io_then (printBlogSummary st)
       (io_then (cleanup redisClient)
       (io_then (cleanup dragonflyClient)
       (io_then (disconnect redisClient)
       (io_then (disconnect dragonflyClient)
       (emit (ConsoleLog ''Benchmark complete!''))))))))))))))))))))"

section \<open>The live dashboard\<close>

definition quickBenchmark :: "client \<Rightarrow> int \<Rightarrow> int \<Rightarrow> jsnum io" where
  "quickBenchmark client numOps valueSize =
     io_bind (generateValue valueSize) (\<lambda>value.
     io_bind performance_now (\<lambda>start.
     io_bind (exec client (map (\<lambda>i. SET (''bench:'' @ show_nat i) value) [0 ..< nat numOps]))
       (\<lambda>_.
     io_bind performance_now (\<lambda>end.
     let duration = sub64 end start
     in ret (ops_per_second numOps duration)))))"

datatype log_line =
    LogText string
  | Running nat
  | DragonflyWinsBy jsnum
  | RedisWinsBy jsnum
  | ErrorMessage error

text \<open>
  The statistics table: the last and the average thousands of operations per second
  (shown with one and with no decimal), the wins, and the win rates as the strings
  shown.
\<close>

record stats_table =
  lastK :: "jsnum \<times> jsnum"
  avgK :: "jsnum \<times> jsnum"
  wins :: "nat \<times> nat"
  winRate :: "string \<times> string"

type_synonym series = "string list \<times> jsnum list"

record dashboard =
  iteration :: nat
  redisTotal :: jsnum
  dragonflyTotal :: jsnum
  redisWins :: nat
  dragonflyWins :: nat
  redisData :: series
  dragonflyData :: series
  bar :: "jsnum \<times> jsnum"
  donut :: "jsnum \<times> jsnum"
  statsTable :: "stats_table option"
  activity :: "log_line list"
  renders :: nat

definition js_nat :: "nat \<Rightarrow> jsnum" where
  "js_nat n = Fin (of_nat n)"

text \<open>\<open>x.toFixed(0)\<close> for any number of magnitude below \<open>10^21\<close>.\<close>

fun js_toFixed0 :: "jsnum \<Rightarrow> string" where
  "js_toFixed0 (Fin x) = toFixed0 x"
| "js_toFixed0 PosInf = ''Infinity''"
| "js_toFixed0 NegInf = ''-Infinity''"
| "js_toFixed0 NaN = ''NaN''"

text \<open>\<open>(wins / iteration) * 100\<close>, and \<open>`${((wins / iteration) * 100).toFixed(0)}%`\<close>.\<close>

definition win_rate :: "nat \<Rightarrow> nat \<Rightarrow> jsnum" where
  "win_rate k n = mul64 (div64 (js_nat k) (js_nat n)) (Fin 100)"

definition percent0 :: "nat \<Rightarrow> nat \<Rightarrow> string" where
  "percent0 k n = js_toFixed0 (win_rate k n) @ ''%''"

text \<open>\<open>((a / b) * 100 - 100)\<close>, the percentage in the activity log.\<close>

definition faster_by :: "jsnum \<Rightarrow> jsnum \<Rightarrow> jsnum" where
  "faster_by a b = sub64 (mul64 (div64 a b) (Fin 100)) (Fin 100)"

definition push_point :: "string \<Rightarrow> jsnum \<Rightarrow> series \<Rightarrow> series" where
  "push_point x y s = (fst s @ [x], snd s @ [y])"

definition shift_point :: "series \<Rightarrow> series" where
  "shift_point s = (tl (fst s), tl (snd s))"

text \<open>What \<open>update\<close> does once both measurements are there.\<close>

definition record_sample :: "jsnum \<Rightarrow> jsnum \<Rightarrow> dashboard \<Rightarrow> dashboard" where
  "record_sample redisOps dragonflyOps d =
     (let d1 = d\<lparr>iteration := iteration d + 1,
                 redisTotal := add64 (redisTotal d) redisOps,
                 dragonflyTotal := add64 (dragonflyTotal d) dragonflyOps\<rparr>;
          d2 = (if js_gt dragonflyOps redisOps
                then d1\<lparr>dragonflyWins := dragonflyWins d1 + 1,
                        activity := activity d1 @ [DragonflyWinsBy (faster_by dragonflyOps redisOps)]\<rparr>
                else d1\<lparr>redisWins := redisWins d1 + 1,
                        activity := activity d1 @ [RedisWinsBy (faster_by redisOps dragonflyOps)]\<rparr>);
          label = show_nat (iteration d2);
          d3 = d2\<lparr>redisData := push_point label (div64 redisOps (Fin 1000)) (redisData d2),
                  dragonflyData :=
                    push_point label (div64 dragonflyOps (Fin 1000)) (dragonflyData d2)\<rparr>;
          d4 = (if length (fst (redisData d3)) > 20
                then d3\<lparr>redisData := shift_point (redisData d3),
                        dragonflyData := shift_point (dragonflyData d3)\<rparr>
                else d3);
          redisAvg =
            Math_round (div64 (div64 (redisTotal d4) (js_nat (iteration d4))) (Fin 1000));
          dragonflyAvg =
            Math_round (div64 (div64 (dragonflyTotal d4) (js_nat (iteration d4))) (Fin 1000))
      in d4\<lparr>bar := (redisAvg, dragonflyAvg),
            donut := (div64 (js_nat (redisWins d4)) (js_nat (iteration d4)),
                      div64 (js_nat (dragonflyWins d4)) (js_nat (iteration d4))),
            statsTable := Some
              \<lparr>lastK = (div64 redisOps (Fin 1000), div64 dragonflyOps (Fin 1000)),
               avgK = (redisAvg, dragonflyAvg),
               wins = (redisWins d4, dragonflyWins d4),
               winRate = (percent0 (redisWins d4) (iteration d4),
                          percent0 (dragonflyWins d4) (iteration d4))\<rparr>,
            renders := renders d4 + 1\<rparr>)"

text \<open>
  One update step: the two measurements inside \<open>try\<close>, and the log line of \<open>catch\<close>
  when one of them rejects.
\<close>

definition update :: "client \<Rightarrow> client \<Rightarrow> dashboard \<Rightarrow> world \<Rightarrow> dashboard \<times> world" where
  "update redisConn dragonflyConn d w =
     (let d1 = d\<lparr>activity := activity d @ [Running (iteration d + 1)]\<rparr> in
      case io_bind (quickBenchmark redisConn 10000 1024) (\<lambda>redisOps.
           io_bind (quickBenchmark dragonflyConn 10000 1024) (\<lambda>dragonflyOps.
           ret (redisOps, dragonflyOps))) w of
        (Inl e, w1) \<Rightarrow> (d1\<lparr>activity := activity d1 @ [ErrorMessage e]\<rparr>, w1)
      | (Inr (redisOps, dragonflyOps), w1) \<Rightarrow> (record_sample redisOps dragonflyOps d1, w1))"




section \<open>Notions of the specification and sample inputs\<close>

text \<open>The throughput of an endpoint in a comparison, and the other endpoint.\<close>

definition throughput :: "comparison \<Rightarrow> endpoint \<Rightarrow> jsnum" where
  "throughput data e =
     (case e of Redis \<Rightarrow> opsPerSecond (redis data)
              | DragonflyDB \<Rightarrow> opsPerSecond (dragonfly data))"


text \<open>The events a scenario runner shows; every runner starts with one.\<close>

fun scenario_event :: "event \<Rightarrow> bool" where
  "scenario_event (ScenarioStart s l) = True"
| "scenario_event (ScenarioProgress s l) = True"
| "scenario_event (ScenarioDone s l r) = True"
| "scenario_event _ = False"

definition sample_result :: "rat \<Rightarrow> result" where
  "sample_result ops = \<lparr>duration = Fin 1000, opsPerSecond = Fin ops, totalOps = 80\<rparr>"

definition sample_pair :: "rat \<Rightarrow> rat \<Rightarrow> comparison" where
  "sample_pair a b = \<lparr>redis = sample_result a, dragonfly = sample_result b\<rparr>"

text \<open>
  A world for examples: both servers hold four keys in three buckets, nothing fails,
  the clock advances by three milliseconds from reading to reading.
\<close>

definition sample_server :: server where
  "sample_server =
     \<lparr>keyspace = [''scan:key:0'', ''other'', ''bulk:1:2'', ''hash:3''], nbuckets = 3,
      bucket = length, connections = 0\<rparr>"

definition sample_world :: world where
  "sample_world =
     \<lparr>servers = (\<lambda>p. sample_server), faults = (\<lambda>n. False), requests = 0,
      clock = (\<lambda>n. of_nat n * 3), readings = 0,
      entropy = (\<lambda>n. of_nat ((n * 37) mod 62) / 62), draws = 0, console = []\<rparr>"

text \<open>
  A quiet world: no network fault from now on.
\<close>

definition quiet :: "world \<Rightarrow> bool" where
  "quiet w = (\<forall>k. \<not> faults w (requests w + k))"

text \<open>
  \<open>completes C m r r' P\<close>: started in any quiet world whose clock is \<open>C\<close> and has been
  read \<open>r\<close> times, \<open>m\<close> returns a value that satisfies \<open>P\<close>, in a quiet world with the
  same clock, read \<open>r'\<close> times.
\<close>

definition completes ::
    "(nat \<Rightarrow> rat) \<Rightarrow> 'a io \<Rightarrow> nat \<Rightarrow> nat \<Rightarrow> ('a \<Rightarrow> bool) \<Rightarrow> bool" where
  "completes C m r r' P =
     (\<forall>w. quiet w \<and> clock w = C \<and> readings w = r \<longrightarrow>
        (\<exists>x w'. m w = (Inr x, w') \<and> P x \<and> quiet w' \<and> clock w' = C \<and> readings w' = r'))"

text \<open>The commands a server does not answer with an error.\<close>

fun accepted :: "command \<Rightarrow> bool" where
  "accepted (DEL ks) = (ks \<noteq> [])"
| "accepted (MSET kvs) = (kvs \<noteq> [])"
| "accepted (MGET ks) = (ks \<noteq> [])"
| "accepted _ = True"

text \<open>\<open>returns_with P x\<close>: if the run \<open>x\<close> returned a value, the value satisfies \<open>P\<close>.\<close>

definition returns_with :: "('a \<Rightarrow> bool) \<Rightarrow> (error + 'a) \<times> world \<Rightarrow> bool" where
  "returns_with P x = (case fst x of Inr r \<Rightarrow> P r | Inl e \<Rightarrow> True)"


text \<open>
  The two expressions the runners round, in the fields of a result and as the program
  evaluates them, every operation rounded to a double: \<open>(totalOps / duration) * 1000\<close>,
  and \<open>totalOps / (duration / 1000)\<close> in the scan runner.
\<close>

definition rate_by_ms :: "result \<Rightarrow> jsnum" where
  "rate_by_ms r = mul64 (div64 (js_int (totalOps r)) (duration r)) (Fin 1000)"

definition rate_by_s :: "result \<Rightarrow> jsnum" where
  "rate_by_s r = div64 (js_int (totalOps r)) (div64 (duration r) (Fin 1000))"

text \<open>
  The time between two consecutive readings of a clock, as the program computes it.
\<close>

definition elapsed :: "(nat \<Rightarrow> rat) \<Rightarrow> nat \<Rightarrow> jsnum" where
  "elapsed C r = sub64 (double (C (Suc r))) (double (C r))"



definition sample_redis :: client where
  "sample_redis = \<lparr>cport = REDIS_PORT, ready = True\<rparr>"



text \<open>
  A key is covered when one of the patterns of \<open>cleanup\<close> matches it. \<open>adds_covered w w'\<close>:
  every key a server holds in \<open>w'\<close> was there in \<open>w\<close> or is covered. \<open>tidy m P\<close>: whatever
  the world, \<open>m\<close> adds covered keys only, and the value it returns, if any, satisfies
  \<open>P\<close>.
\<close>

definition covered :: "string \<Rightarrow> bool" where
  "covered k = list_ex (\<lambda>pattern. glob pattern k) patterns"

definition adds_covered :: "world \<Rightarrow> world \<Rightarrow> bool" where
  "adds_covered w w' =
     (\<forall>q. \<forall>k \<in> set (keyspace (servers w' q)). k \<in> set (keyspace (servers w q)) \<or> covered k)"

definition tidy :: "'a io \<Rightarrow> ('a \<Rightarrow> bool) \<Rightarrow> bool" where
  "tidy m P = (\<forall>w. adds_covered w (snd (m w)) \<and> (\<forall>x. fst (m w) = Inr x \<longrightarrow> P x))"

definition covered_commands :: "command list \<Rightarrow> bool" where
  "covered_commands cmds = (\<forall>cmd \<in> set cmds. \<forall>k \<in> set (written cmd). covered k)"

section \<open>The workload generator\<close>

lemma charAt_chars:
  assumes "0 \<le> r" and "r < 1"
  shows "\<exists>c. charAt chars \<lfloor>r * of_nat (length chars)\<rfloor> = [c] \<and> c \<in> set chars"
proof -
  have "0 \<le> r * of_nat (length chars)" using assms by simp
  then have lo: "0 \<le> \<lfloor>r * of_nat (length chars)\<rfloor>" by simp
  have "r * of_nat (length chars) < of_nat (length chars)"
    using assms by (simp add: chars_def)
  then have hi: "\<lfloor>r * of_nat (length chars)\<rfloor> < int (length chars)"
    by (simp add: floor_less_iff)
  from lo hi have "nat \<lfloor>r * of_nat (length chars)\<rfloor> < length chars" by linarith
  then have "chars ! nat \<lfloor>r * of_nat (length chars)\<rfloor> \<in> set chars" by (rule nth_mem)
  with lo hi show ?thesis by (simp add: charAt_def)
qed

lemma draw_char_loop:
  assumes "\<forall>i. 0 \<le> entropy w i \<and> entropy w i < 1"
  shows "\<exists>s. for_loop i n draw_char acc w = (Inr s, w\<lparr>draws := draws w + n\<rparr>) \<and>
     length s = length acc + n \<and> set s \<subseteq> set acc \<union> set chars"
  using assms
proof (induction n arbitrary: i acc w)
  case 0
  then show ?case by (simp add: ret_def)
next
  case (Suc n)
  obtain c where c: "charAt chars \<lfloor>entropy w (draws w) * of_nat (length chars)\<rfloor> = [c]"
      "c \<in> set chars"
    using charAt_chars Suc.prems by blast
  let ?w1 = "w\<lparr>draws := Suc (draws w)\<rparr>"
  have step: "draw_char i acc w = (Inr (acc @ [c]), ?w1)"
    by (simp add: draw_char_def io_bind_def Math_random_def ret_def c)
  have "\<forall>i. 0 \<le> entropy ?w1 i \<and> entropy ?w1 i < 1" using Suc.prems by simp
  from Suc.IH[OF this, of "Suc i" "acc @ [c]"]
  obtain s where s:
      "for_loop (Suc i) n draw_char (acc @ [c]) ?w1 = (Inr s, ?w1\<lparr>draws := draws ?w1 + n\<rparr>)"
      "length s = length (acc @ [c]) + n" "set s \<subseteq> set (acc @ [c]) \<union> set chars"
    by blast
  show ?case using s c step by (auto simp: io_bind_def)
qed

text \<open>Whatever the random source draws, \<open>generateValue\<close> returns and only draws.\<close>

lemma generateValue_returns:
  "\<exists>s. generateValue sz w = (Inr s, w\<lparr>draws := draws w + nat sz\<rparr>)"
proof -
  have "\<exists>s. for_loop i n draw_char acc w = (Inr s, w\<lparr>draws := draws w + n\<rparr>)" for i n acc
  proof (induction n arbitrary: i acc w)
    case 0
    then show ?case by (simp add: ret_def)
  next
    case (Suc n)
    let ?w1 = "w\<lparr>draws := Suc (draws w)\<rparr>"
    obtain x where step: "draw_char i acc w = (Inr x, ?w1)"
      by (simp add: draw_char_def io_bind_def Math_random_def ret_def)
    from Suc[of "Suc i" x ?w1] show ?case using step by (auto simp: io_bind_def)
  qed
  then show ?thesis by (simp add: generateValue_def)
qed

text \<open>
  C6. For every non-negative size, \<open>generateValue(size)\<close> returns a string of length
  exactly \<open>size\<close>, every character of which is in the alphanumeric alphabet \<open>chars\<close>.
  \<open>Math.random()\<close> draws from the half-open interval from 0 to 1, which is the
  hypothesis on the random source.
\<close>

theorem generateValue_length_alphabet:
  assumes "\<forall>i. 0 \<le> entropy w i \<and> entropy w i < 1" and "0 \<le> sz"
  shows "\<exists>s w'. generateValue sz w = (Inr s, w') \<and> int (length s) = sz \<and>
           set s \<subseteq> set chars"
proof -
  from draw_char_loop[OF assms(1), of 0 "nat sz" "''''"]
  obtain s where
      "for_loop 0 (nat sz) draw_char '''' w = (Inr s, w\<lparr>draws := draws w + nat sz\<rparr>)"
      "length s = nat sz" "set s \<subseteq> set chars"
    by auto
  then show ?thesis using assms(2) by (auto simp: generateValue_def)
qed

theorem generateValue_length_alphabet_witness:
  "fst (generateValue 3 sample_world) = Inr ''AlM'' \<and>
   (\<exists>s w'. generateValue 1024 sample_world = (Inr s, w') \<and> int (length s) = 1024 \<and>
      set s \<subseteq> set chars)"
proof -
  have e: "\<forall>i. 0 \<le> entropy sample_world i \<and> entropy sample_world i < 1"
    by (simp add: sample_world_def)
  have "fst (generateValue 3 sample_world) = Inr ''AlM''" by code_simp
  then show ?thesis using generateValue_length_alphabet[OF e, of 1024] by simp
qed

section \<open>The comparison table\<close>

lemma js_gt_irrefl: "\<not> js_gt x x"
  by (cases x) simp_all

lemma fold_table_step:
  "fst (fold table_step results (table, st)) =
     table @ map (\<lambda>(name, data). compare_row name data) results"
  by (induction results arbitrary: table st)
     (auto simp: table_step_def Let_def split: prod.splits)

text \<open>The table printed holds the rows \<open>compare_row\<close> builds, in the order of the results.\<close>

lemma printComparisonTable_console:
  "console (snd (printComparisonTable results w)) =
     console w @ [ComparisonTable (map (\<lambda>(name, data). compare_row name data) results)]"
  using fold_table_step[of results "[]" "initial_stats (length results)"]
  by (auto simp: printComparisonTable_def io_then_def io_bind_def emit_def ret_def
        split: prod.splits)

lemma printComparisonTable_value:
  "fst (printComparisonTable results w) =
     Inr (snd (fold table_step results ([], initial_stats (length results))))"
  by (auto simp: printComparisonTable_def io_then_def io_bind_def emit_def ret_def
        split: prod.splits)




text \<open>
  C4. The winner is selected by the strict test \<open>dragonflyOps > redisOps\<close>: the throughput
  of DragonflyDB is its first operand and decides the first branch, the throughput of
  Redis is its second operand and Redis is named by the other branch. When the two
  values are exactly equal the test is false and the winner reported is Redis, the
  endpoint checked second; the ratio is then the quotient of the two equal values.
  (Redis is the endpoint that every comparison lists first and runs first.)
\<close>

theorem tie_goes_to_redis:
  assumes "throughput data DragonflyDB = throughput data Redis"
  shows "isDragonflyWinner data =
           js_gt (throughput data DragonflyDB) (throughput data Redis) \<and>
         \<not> isDragonflyWinner data \<and>
         winner (compare_row name data) = Redis \<and>
         ratio (compare_row name data) =
           js_div (throughput data Redis) (throughput data DragonflyDB)"
  using assms
  by (simp add: compare_row_def isDragonflyWinner_def throughput_def js_gt_irrefl Let_def)

text \<open>Throughput 100 on both sides: Redis is named, with ratio 1.\<close>

theorem tie_goes_to_redis_witness:
  "throughput (sample_pair 100 100) DragonflyDB = throughput (sample_pair 100 100) Redis \<and>
   winner (compare_row ''Memory Info'' (sample_pair 100 100)) = Redis \<and>
   ratio (compare_row ''Memory Info'' (sample_pair 100 100)) = Fin 1"
  using tie_goes_to_redis[of "sample_pair 100 100" "''Memory Info''"]
  by (simp add: sample_pair_def sample_result_def throughput_def)

text \<open>
  C5. The comparison is deterministic: whatever the state of the world (clock, random
  source, servers, what the console already shows), \<open>printComparisonTable\<close> on the same
  results returns the same statistics and prints the same table, so the same winner
  and the same ratio for every entry, ties included.
\<close>

theorem printComparisonTable_deterministic:
  "fst (printComparisonTable results w1) = fst (printComparisonTable results w2) \<and>
   drop (length (console w1)) (console (snd (printComparisonTable results w1))) =
   drop (length (console w2)) (console (snd (printComparisonTable results w2)))"
  by (simp add: printComparisonTable_value printComparisonTable_console)

section \<open>Runs that complete\<close>

lemma quiet_later:
  "quiet w \<Longrightarrow> faults w' = faults w \<Longrightarrow> requests w \<le> requests w' \<Longrightarrow> quiet w'"
  unfolding quiet_def
  by (metis add.assoc le_Suc_ex)

lemma quiet_now: "quiet w \<Longrightarrow> \<not> faults w (requests w)"
  unfolding quiet_def by (metis add.right_neutral)

lemma completesI:
  assumes "\<And>w. quiet w \<Longrightarrow> clock w = C \<Longrightarrow> readings w = r \<Longrightarrow>
     \<exists>x w'. m w = (Inr x, w') \<and> P x \<and> quiet w' \<and> clock w' = C \<and> readings w' = r'"
  shows "completes C m r r' P"
  using assms unfolding completes_def by blast

lemma completesD:
  assumes "completes C m r r' P" and "quiet w" and "clock w = C" and "readings w = r"
  obtains x w' where "m w = (Inr x, w')" and "P x" and "quiet w'" and "clock w' = C"
    and "readings w' = r'"
  using assms unfolding completes_def by blast

lemma completes_ret: "P x \<Longrightarrow> completes C (ret x) r r P"
  by (rule completesI) (simp add: ret_def)

lemma completes_bind:
  assumes "completes C m r r1 P" and "\<And>x. P x \<Longrightarrow> completes C (f x) r1 r2 Q"
  shows "completes C (io_bind m f) r r2 Q"
proof (rule completesI)
  fix w assume w: "quiet w" "clock w = C" "readings w = r"
  from completesD[OF assms(1) w] obtain x w1 where
    1: "m w = (Inr x, w1)" "P x" "quiet w1" "clock w1 = C" "readings w1 = r1" by blast
  from completesD[OF assms(2)[OF 1(2)] 1(3,4,5)] obtain y w2 where
    2: "f x w1 = (Inr y, w2)" "Q y" "quiet w2" "clock w2 = C" "readings w2 = r2" by blast
  show "\<exists>x w'. io_bind m f w = (Inr x, w') \<and> Q x \<and> quiet w' \<and> clock w' = C \<and> readings w' = r2"
    using 1 2 by (simp add: io_bind_def)
qed

lemma completes_then:
  assumes "completes C m r r1 P" and "completes C k r1 r2 Q"
  shows "completes C (io_then m k) r r2 Q"
  unfolding io_then_def using assms by (blast intro: completes_bind)

lemma completes_weaken:
  "completes C m r r' P \<Longrightarrow> (\<And>x. P x \<Longrightarrow> Q x) \<Longrightarrow> completes C m r r' Q"
  unfolding completes_def by blast

lemma completes_emit: "completes C (emit e) r r (\<lambda>_. True)"
  by (rule completesI) (auto simp: emit_def elim: quiet_later)

lemma completes_random: "completes C Math_random r r (\<lambda>_. True)"
  by (rule completesI) (auto simp: Math_random_def elim: quiet_later)

lemma completes_now: "completes C performance_now r (Suc r) (\<lambda>t. t = double (C r))"
  by (rule completesI) (auto simp: performance_now_def elim: quiet_later)

lemma completes_disconnect: "completes C (disconnect c) r r (\<lambda>_. True)"
  by (rule completesI) (auto simp: disconnect_def on_server_def elim: quiet_later)

lemma completes_connect: "completes C (connect c) r r (\<lambda>x. x = c\<lparr>ready := True\<rparr>)"
  by (rule completesI) (auto simp: connect_def on_server_def Let_def dest: quiet_now elim: quiet_later)

lemma accepted_serve: "accepted cmd \<Longrightarrow> fst (serve cmd sv) \<noteq> ErrorReply"
  by (induction cmd sv rule: serve.induct) auto

lemma completes_call: "accepted cmd \<Longrightarrow> completes C (call c cmd) r r (\<lambda>_. True)"
proof (rule completesI)
  fix w assume a: "accepted cmd" and w: "quiet w" "clock w = C" "readings w = r"
  let ?w1 = "w\<lparr>requests := Suc (requests w)\<rparr>"
  obtain rp sv where s: "serve cmd (servers ?w1 (cport c)) = (rp, sv)" by (cases "serve cmd (servers ?w1 (cport c))")
  with accepted_serve[OF a, of "servers ?w1 (cport c)"] have "rp \<noteq> ErrorReply" by simp
  then have "call c cmd w = (Inr rp, on_server (cport c) (\<lambda>_. sv) ?w1)"
    using quiet_now[OF w(1)] s by (cases rp) (simp_all add: call_def Let_def)
  moreover have "quiet (on_server (cport c) (\<lambda>_. sv) ?w1)"
    using w(1) by (rule quiet_later) (simp_all add: on_server_def)
  ultimately show "\<exists>x w'. call c cmd w = (Inr x, w') \<and> True \<and> quiet w' \<and> clock w' = C \<and> readings w' = r"
    using w by (simp add: on_server_def)
qed

lemma completes_exec: "completes C (exec c cmds) r r (\<lambda>_. True)"
proof (rule completesI)
  fix w assume w: "quiet w" "clock w = C" "readings w = r"
  let ?w1 = "w\<lparr>requests := Suc (requests w)\<rparr>"
  obtain rs sv where s: "serve_all cmds (servers ?w1 (cport c)) = (rs, sv)" by (cases "serve_all cmds (servers ?w1 (cport c))")
  then have "exec c cmds w = (Inr rs, on_server (cport c) (\<lambda>_. sv) ?w1)"
    using quiet_now[OF w(1)] by (simp add: exec_def Let_def)
  moreover have "quiet (on_server (cport c) (\<lambda>_. sv) ?w1)"
    using w(1) by (rule quiet_later) (simp_all add: on_server_def)
  ultimately show "\<exists>x w'. exec c cmds w = (Inr x, w') \<and> True \<and> quiet w' \<and> clock w' = C \<and> readings w' = r"
    using w by (simp add: on_server_def)
qed

lemma completes_for_loop:
  assumes "\<And>i s. completes C (body i s) r r (\<lambda>_. True)"
  shows "completes C (for_loop i n body s) r r (\<lambda>_. True)"
proof (induction n arbitrary: i s)
  case 0
  show ?case by (simp add: completes_ret)
next
  case (Suc n)
  show ?case by (simp, rule completes_bind[OF assms]) (rule Suc)
qed

lemma completes_for_range:
  assumes "\<And>i. completes C (body i) r r (\<lambda>_. True)"
  shows "completes C (for_range n body) r r (\<lambda>_. True)"
  unfolding for_range_def by (rule completes_for_loop) (rule assms)

lemma completes_for_each:
  assumes "\<And>i x. completes C (body i x) r r (\<lambda>_. True)"
  shows "completes C (for_each i xs body) r r (\<lambda>_. True)"
proof (induction xs arbitrary: i)
  case Nil
  show ?case by (simp add: completes_ret)
next
  case (Cons x xs)
  show ?case by (simp, rule completes_then[OF assms]) (rule Cons)
qed

lemma completes_for_batches:
  assumes "\<And>b. completes C (body b) r r (\<lambda>_. True)"
  shows "completes C (for_batches batch bound body) r r (\<lambda>_. True)"
  using assms
proof (induction batch bound body rule: for_batches.induct)
  case (1 batch bound body)
  show ?case
  proof (cases "batch < bound")
    case True
    have "completes C (for_batches (batch + 5000) bound body) r r (\<lambda>_. True)"
      using "1.IH"[OF True] "1.prems" by blast
    with "1.prems" have "completes C (io_then (body batch) (for_batches (batch + 5000) bound body)) r r (\<lambda>_. True)"
      by (blast intro: completes_then)
    then show ?thesis by (subst for_batches.simps) (simp add: True)
  next
    case False
    then show ?thesis by (subst for_batches.simps) (simp add: completes_ret)
  qed
qed

lemma completes_generateValue: "completes C (generateValue sz) r r (\<lambda>_. True)"
proof (rule completesI)
  fix w assume w: "quiet w" "clock w = C" "readings w = r"
  from generateValue_returns[of sz w] obtain s where
    "generateValue sz w = (Inr s, w\<lparr>draws := draws w + nat sz\<rparr>)" by blast
  moreover have "quiet (w\<lparr>draws := draws w + nat sz\<rparr>)"
    using w(1) by (rule quiet_later) simp_all
  ultimately show "\<exists>x w'. generateValue sz w = (Inr x, w') \<and> True \<and> quiet w' \<and> clock w' = C \<and> readings w' = r"
    using w by simp
qed

lemma completes_connect_loop:
  "completes C (for_loop i n (connect_one p) acc) r r
     (\<lambda>cs. cs = acc @ replicate n \<lparr>cport = p, ready = True\<rparr>)"
proof (induction n arbitrary: i acc)
  case 0
  show ?case by (simp add: completes_ret)
next
  case (Suc n)
  have step: "completes C (connect_one p i acc) r r
      (\<lambda>cs. cs = acc @ [\<lparr>cport = p, ready = True\<rparr>])"
    unfolding connect_one_def
    by (rule completes_bind[OF completes_connect]) (simp add: completes_ret new_Redis_def)
  show ?case
    apply simp
    apply (rule completes_bind[OF step])
    apply (rule completes_weaken[OF Suc])
    apply (simp add: replicate_app_Cons_same)
    done
qed

lemma completes_createClients:
  "completes C (createClients p count) r r
     (\<lambda>cs. cs = replicate (nat count) \<lparr>cport = p, ready = True\<rparr>)"
  unfolding createClients_def
  by (rule completes_weaken[OF completes_connect_loop]) simp

lemma completes_closeClients: "completes C (closeClients cs) r r (\<lambda>_. True)"
  unfolding closeClients_def by (rule completes_for_each) (rule completes_disconnect)

lemma completes_scan: "completes C (scan c cursor pattern count) r r (\<lambda>_. True)"
proof (rule completesI)
  fix w assume w: "quiet w" "clock w = C" "readings w = r"
  let ?w1 = "w\<lparr>requests := Suc (requests w)\<rparr>"
  have "scan c cursor pattern count w =
      (Inr (next_cursor (servers w (cport c)) cursor, scan_page (servers w (cport c)) cursor pattern),
       on_server (cport c) (\<lambda>_. servers w (cport c)) ?w1)"
    using quiet_now[OF w(1)] by (simp add: scan_def call_def io_bind_def Let_def ret_def)
  moreover have "quiet (on_server (cport c) (\<lambda>_. servers w (cport c)) ?w1)"
    using w(1) by (rule quiet_later) (simp_all add: on_server_def)
  ultimately show "\<exists>x w'. scan c cursor pattern count w = (Inr x, w') \<and> True \<and> quiet w' \<and> clock w' = C \<and> readings w' = r"
    using w by (simp add: on_server_def)
qed

lemma scan_pass_returns:
  assumes "quiet w"
  shows "\<exists>x w'. scan_pass c cursor totalKeys w = (Inr x, w') \<and> quiet w' \<and> clock w' = clock w \<and>
     readings w' = readings w"
  using assms
proof (induction c cursor totalKeys w rule: scan_pass.induct)
  case (1 client cursor totalKeys w)
  from completesD[OF completes_scan[of "clock w" client cursor "''scan:*''" 500 "readings w"] "1.prems" refl refl]
  obtain x w1 where s: "scan client cursor ''scan:*'' 500 w = (Inr x, w1)" "quiet w1"
    "clock w1 = clock w" "readings w1 = readings w" by blast
  obtain newCursor ks where x: "x = (newCursor, ks)" by (cases x)
  show ?case
  proof (cases "newCursor = 0")
    case True
    then show ?thesis using s x by (subst scan_pass.simps) simp
  next
    case False
    from "1.IH"[OF s(1)[symmetric] refl x[symmetric] False s(2)]
    show ?thesis using s x False by (subst scan_pass.simps) simp
  qed
qed

lemma completes_scan_pass: "completes C (scan_pass c cursor totalKeys) r r (\<lambda>_. True)"
  by (rule completesI) (use scan_pass_returns in fastforce)


lemma completes_using_client:
  assumes "clients \<noteq> []" and "\<And>x. completes C (f x) r r' P"
  shows "completes C (using_client (first_client clients) f) r r' P"
  using assms by (cases clients) (simp_all add: using_client_def first_client_def)

lemmas completes_rules =
  completes_emit completes_random completes_now completes_disconnect completes_connect
  completes_call completes_exec completes_generateValue completes_createClients
  completes_closeClients completes_scan_pass completes_for_loop completes_for_range
  completes_for_each completes_for_batches completes_ret completes_then completes_bind

text \<open>
  In a quiet world every scenario runner returns, with the duration between its two
  readings of the clock.
\<close>

lemma scan_completes:
  assumes "0 < numClients"
  shows "completes C (benchmarkConcurrentScan p label numClients keysToCreate) r (Suc (Suc r))
     (\<lambda>res. res = \<lparr>duration = elapsed C r,
                    opsPerSecond = Math_round (div64 (js_int (numClients * 10))
                                     (div64 (elapsed C r) (Fin 1000))),
                    totalOps = numClients * 10\<rparr>)"
  unfolding benchmarkConcurrentScan_def Let_def
  by (insert assms, (rule completes_using_client completes_rules | simp add: elapsed_def)+)

lemma keys_completes:
  "completes C (benchmarkKeysPattern p label numClients iterations) r (Suc (Suc r))
     (\<lambda>res. res = \<lparr>duration = elapsed C r,
                    opsPerSecond = ops_per_second (numClients * iterations) (elapsed C r),
                    totalOps = numClients * iterations\<rparr>)"
  unfolding benchmarkKeysPattern_def Let_def
  by (rule completes_rules | simp add: elapsed_def)+

lemma info_completes:
  "completes C (benchmarkMemoryInfo p label numClients iterations) r (Suc (Suc r))
     (\<lambda>res. res = \<lparr>duration = elapsed C r,
                    opsPerSecond = ops_per_second (numClients * iterations * 2) (elapsed C r),
                    totalOps = numClients * iterations * 2\<rparr>)"
  unfolding benchmarkMemoryInfo_def Let_def
  by (rule completes_rules | simp add: elapsed_def)+

lemma bulk_completes:
  assumes "0 < batchSize"
  shows "completes C (benchmarkBulkOperations p label batchSize iterations) r (Suc (Suc r))
     (\<lambda>res. res = \<lparr>duration = elapsed C r,
                    opsPerSecond = ops_per_second (iterations * batchSize * 2) (elapsed C r),
                    totalOps = iterations * batchSize * 2\<rparr>)"
  unfolding benchmarkBulkOperations_def Let_def
  by (insert assms, (rule completes_rules | simp add: elapsed_def)+)

lemma completes_add_player: "completes C (add_player batch i pipeline) r r (\<lambda>_. True)"
  unfolding add_player_def by (rule completes_rules | simp add: elapsed_def)+

lemma zset_completes:
  assumes "0 < numClients"
  shows "completes C (benchmarkSortedSetQueries p label setSize numClients queriesPerClient) r (Suc (Suc r))
     (\<lambda>res. res = \<lparr>duration = elapsed C r,
                    opsPerSecond = ops_per_second (numClients * queriesPerClient * 3) (elapsed C r),
                    totalOps = numClients * queriesPerClient * 3\<rparr>)"
  unfolding benchmarkSortedSetQueries_def Let_def
  by (insert assms, (rule completes_using_client completes_add_player completes_rules | simp add: elapsed_def)+)

lemma mixed_completes:
  "completes C (benchmarkPipelinedMixed p label numClients pipelinesPerClient) r (Suc (Suc r))
     (\<lambda>res. res = \<lparr>duration = elapsed C r,
                    opsPerSecond = ops_per_second (numClients * pipelinesPerClient * 50 * 5) (elapsed C r),
                    totalOps = numClients * pipelinesPerClient * 50 * 5\<rparr>)"
  unfolding benchmarkPipelinedMixed_def Let_def
  by (rule completes_rules | simp add: elapsed_def)+

section \<open>The results of the scenario runners\<close>

lemma io_bind_Inr_iff:
  "fst (io_bind m f w) = Inr r \<longleftrightarrow> (\<exists>x w1. m w = (Inr x, w1) \<and> fst (f x w1) = Inr r)"
  by (auto simp: io_bind_def split: prod.splits sum.splits)

lemma io_then_Inr_iff:
  "fst (io_then m k w) = Inr r \<longleftrightarrow> (\<exists>w1. m w = (Inr (), w1) \<and> fst (k w1) = Inr r)"
  by (auto simp: io_then_def io_bind_def split: prod.splits sum.splits)

lemma ret_Inr_iff: "fst (ret x w) = Inr r \<longleftrightarrow> r = x"
  by (auto simp: ret_def)

lemma returns_withI: "(\<And>r. fst x = Inr r \<Longrightarrow> P r) \<Longrightarrow> returns_with P x"
  by (auto simp: returns_with_def split: sum.splits)

lemma returns_withD: "returns_with P x \<Longrightarrow> fst x = Inr r \<Longrightarrow> P r"
  by (simp add: returns_with_def)

lemmas run_simps = io_bind_Inr_iff io_then_Inr_iff ret_Inr_iff Let_def

lemma scan_result:
  "returns_with (\<lambda>r. totalOps r = numClients * 10 \<and> opsPerSecond r = Math_round (rate_by_s r))
     (benchmarkConcurrentScan p label numClients keysToCreate w)"
  by (rule returns_withI) (auto simp: benchmarkConcurrentScan_def run_simps rate_by_s_def)

lemma keys_result:
  "returns_with (\<lambda>r. totalOps r = numClients * iterations \<and> opsPerSecond r = Math_round (rate_by_ms r))
     (benchmarkKeysPattern p label numClients iterations w)"
  by (rule returns_withI)
     (auto simp: benchmarkKeysPattern_def run_simps rate_by_ms_def ops_per_second_def)

lemma info_result:
  "returns_with (\<lambda>r. totalOps r = numClients * iterations * 2 \<and> opsPerSecond r = Math_round (rate_by_ms r))
     (benchmarkMemoryInfo p label numClients iterations w)"
  by (rule returns_withI)
     (auto simp: benchmarkMemoryInfo_def run_simps rate_by_ms_def ops_per_second_def)

lemma bulk_result:
  "returns_with (\<lambda>r. totalOps r = iterations * batchSize * 2 \<and> opsPerSecond r = Math_round (rate_by_ms r))
     (benchmarkBulkOperations p label batchSize iterations w)"
  by (rule returns_withI)
     (auto simp: benchmarkBulkOperations_def run_simps rate_by_ms_def ops_per_second_def)

lemma zset_result:
  "returns_with (\<lambda>r. totalOps r = numClients * queriesPerClient * 3 \<and> opsPerSecond r = Math_round (rate_by_ms r))
     (benchmarkSortedSetQueries p label setSize numClients queriesPerClient w)"
  by (rule returns_withI)
     (auto simp: benchmarkSortedSetQueries_def run_simps rate_by_ms_def ops_per_second_def)

lemma mixed_result:
  "returns_with (\<lambda>r. totalOps r = numClients * pipelinesPerClient * 50 * 5 \<and> opsPerSecond r = Math_round (rate_by_ms r))
     (benchmarkPipelinedMixed p label numClients pipelinesPerClient w)"
  by (rule returns_withI)
     (auto simp: benchmarkPipelinedMixed_def run_simps rate_by_ms_def ops_per_second_def)

lemma returns_with_mono: "returns_with P x \<Longrightarrow> (\<And>r. P r \<Longrightarrow> Q r) \<Longrightarrow> returns_with Q x"
  by (auto simp: returns_with_def split: sum.splits)

lemma completes_returns:
  assumes "completes (clock w) m (readings w) r' P" and "quiet w"
  shows "\<exists>x. fst (m w) = Inr x \<and> P x"
  using completesD[OF assms refl refl] by (metis fst_conv)

lemma quiet_sample_world: "quiet sample_world"
  by (simp add: quiet_def sample_world_def)

text \<open>
  C1. Whatever the parameters and the world, the result a scenario runner returns has
  the \<open>totalOps\<close> of the table: concurrent scan \<open>numClients * 10\<close> (the number of keys
  plays no part), pattern match \<open>numClients * iterations\<close>, admin/info
  \<open>numClients * iterations * 2\<close>, bulk \<open>iterations * batchSize * 2\<close>, sorted-set queries
  \<open>numClients * queriesPerClient * 3\<close>, pipelined mixed
  \<open>numClients * pipelinesPerClient * 50 * 5\<close>. And in a quiet world, with at least one
  client and a batch that is not empty, every runner does return a result. The
  parameters are integers; in the program the products are doubles, exact below \<open>2^53\<close>.
\<close>

theorem totalOps_formula:
  "returns_with (\<lambda>r. totalOps r = numClients * 10)
     (benchmarkConcurrentScan p label numClients keysToCreate w) \<and>
   returns_with (\<lambda>r. totalOps r = numClients * iterations)
     (benchmarkKeysPattern p label numClients iterations w) \<and>
   returns_with (\<lambda>r. totalOps r = numClients * iterations * 2)
     (benchmarkMemoryInfo p label numClients iterations w) \<and>
   returns_with (\<lambda>r. totalOps r = iterations * batchSize * 2)
     (benchmarkBulkOperations p label batchSize iterations w) \<and>
   returns_with (\<lambda>r. totalOps r = numClients * queriesPerClient * 3)
     (benchmarkSortedSetQueries p label setSize numClients queriesPerClient w) \<and>
   returns_with (\<lambda>r. totalOps r = numClients * pipelinesPerClient * 50 * 5)
     (benchmarkPipelinedMixed p label numClients pipelinesPerClient w) \<and>
   (quiet w \<and> 0 < numClients \<and> 0 < batchSize \<longrightarrow>
      (\<exists>r. fst (benchmarkConcurrentScan p label numClients keysToCreate w) = Inr r) \<and>
      (\<exists>r. fst (benchmarkKeysPattern p label numClients iterations w) = Inr r) \<and>
      (\<exists>r. fst (benchmarkMemoryInfo p label numClients iterations w) = Inr r) \<and>
      (\<exists>r. fst (benchmarkBulkOperations p label batchSize iterations w) = Inr r) \<and>
      (\<exists>r. fst (benchmarkSortedSetQueries p label setSize numClients queriesPerClient w) = Inr r) \<and>
      (\<exists>r. fst (benchmarkPipelinedMixed p label numClients pipelinesPerClient w) = Inr r))"
proof -
  have partial:
    "returns_with (\<lambda>r. totalOps r = numClients * 10)
       (benchmarkConcurrentScan p label numClients keysToCreate w)"
    "returns_with (\<lambda>r. totalOps r = numClients * iterations)
       (benchmarkKeysPattern p label numClients iterations w)"
    "returns_with (\<lambda>r. totalOps r = numClients * iterations * 2)
       (benchmarkMemoryInfo p label numClients iterations w)"
    "returns_with (\<lambda>r. totalOps r = iterations * batchSize * 2)
       (benchmarkBulkOperations p label batchSize iterations w)"
    "returns_with (\<lambda>r. totalOps r = numClients * queriesPerClient * 3)
       (benchmarkSortedSetQueries p label setSize numClients queriesPerClient w)"
    "returns_with (\<lambda>r. totalOps r = numClients * pipelinesPerClient * 50 * 5)
       (benchmarkPipelinedMixed p label numClients pipelinesPerClient w)"
    by (auto intro: returns_with_mono[OF scan_result] returns_with_mono[OF keys_result]
          returns_with_mono[OF info_result] returns_with_mono[OF bulk_result]
          returns_with_mono[OF zset_result] returns_with_mono[OF mixed_result])
  have total: "(\<exists>r. fst (benchmarkConcurrentScan p label numClients keysToCreate w) = Inr r) \<and>
      (\<exists>r. fst (benchmarkKeysPattern p label numClients iterations w) = Inr r) \<and>
      (\<exists>r. fst (benchmarkMemoryInfo p label numClients iterations w) = Inr r) \<and>
      (\<exists>r. fst (benchmarkBulkOperations p label batchSize iterations w) = Inr r) \<and>
      (\<exists>r. fst (benchmarkSortedSetQueries p label setSize numClients queriesPerClient w) = Inr r) \<and>
      (\<exists>r. fst (benchmarkPipelinedMixed p label numClients pipelinesPerClient w) = Inr r)"
    if q: "quiet w" and n: "0 < numClients" and b: "0 < batchSize"
  proof (intro conjI)
    show "\<exists>r. fst (benchmarkConcurrentScan p label numClients keysToCreate w) = Inr r"
      using completes_returns[OF scan_completes[OF n] q] by blast
    show "\<exists>r. fst (benchmarkKeysPattern p label numClients iterations w) = Inr r"
      using completes_returns[OF keys_completes q] by blast
    show "\<exists>r. fst (benchmarkMemoryInfo p label numClients iterations w) = Inr r"
      using completes_returns[OF info_completes q] by blast
    show "\<exists>r. fst (benchmarkBulkOperations p label batchSize iterations w) = Inr r"
      using completes_returns[OF bulk_completes[OF b] q] by blast
    show "\<exists>r. fst (benchmarkSortedSetQueries p label setSize numClients queriesPerClient w) = Inr r"
      using completes_returns[OF zset_completes[OF n] q] by blast
    show "\<exists>r. fst (benchmarkPipelinedMixed p label numClients pipelinesPerClient w) = Inr r"
      using completes_returns[OF mixed_completes q] by blast
  qed
  from partial total show ?thesis by blast
qed

text \<open>
  The parameters of the batch run: 8 clients over 100,000 keys make 80 scans, 10 clients
  with 100 pipelines each make 250,000 operations, 50 batches of 500 keys make 50,000.
\<close>

theorem totalOps_formula_witness:
  "(\<exists>r. fst (benchmarkConcurrentScan REDIS_PORT ''Redis'' 8 100000 sample_world) = Inr r \<and>
        totalOps r = 80) \<and>
   (\<exists>r. fst (benchmarkPipelinedMixed REDIS_PORT ''Redis'' 10 100 sample_world) = Inr r \<and>
        totalOps r = 250000) \<and>
   (\<exists>r. fst (benchmarkBulkOperations REDIS_PORT ''Redis'' 500 50 sample_world) = Inr r \<and>
        totalOps r = 50000)"
proof -
  note t = totalOps_formula[where p = REDIS_PORT and label = "''Redis''" and w = sample_world
      and setSize = 100000 and queriesPerClient = 100]
  have "\<exists>r. fst (benchmarkConcurrentScan REDIS_PORT ''Redis'' 8 100000 sample_world) = Inr r \<and>
        totalOps r = 80"
    using t[where numClients = 8 and keysToCreate = 100000 and batchSize = 500
        and iterations = 50 and pipelinesPerClient = 100] quiet_sample_world
    by (auto simp: returns_with_def)
  moreover have "\<exists>r. fst (benchmarkPipelinedMixed REDIS_PORT ''Redis'' 10 100 sample_world) = Inr r \<and>
        totalOps r = 250000"
    using t[where numClients = 10 and keysToCreate = 100000 and batchSize = 500
        and iterations = 50 and pipelinesPerClient = 100] quiet_sample_world
    by (auto simp: returns_with_def)
  moreover have "\<exists>r. fst (benchmarkBulkOperations REDIS_PORT ''Redis'' 500 50 sample_world) = Inr r \<and>
        totalOps r = 50000"
    using t[where numClients = 10 and keysToCreate = 100000 and batchSize = 500
        and iterations = 50 and pipelinesPerClient = 100] quiet_sample_world
    by (auto simp: returns_with_def)
  ultimately show ?thesis by blast
qed





section \<open>The client pool\<close>

lemma connect_one_fault:
  "faults w (requests w) \<Longrightarrow> fst (connect_one p i acc w) = Inl (ConnectionError p)"
  by (simp add: connect_one_def io_bind_def connect_def Let_def new_Redis_def)

lemma connect_one_ok:
  assumes "\<not> faults w (requests w)"
  shows "\<exists>w1. connect_one p i acc w = (Inr (acc @ [\<lparr>cport = p, ready = True\<rparr>]), w1) \<and>
           faults w1 = faults w \<and> requests w1 = Suc (requests w)"
  using assms
  by (simp add: connect_one_def io_bind_def connect_def Let_def new_Redis_def ret_def on_server_def)

lemma connect_loop_fault:
  assumes "k < n" and "faults w (requests w + k)"
  shows "fst (for_loop i n (connect_one p) acc w) = Inl (ConnectionError p)"
  using assms
proof (induction n arbitrary: i acc w k)
  case 0
  then show ?case by simp
next
  case (Suc n)
  show ?case
  proof (cases "faults w (requests w)")
    case True
    from connect_one_fault[OF True, of p i acc]
    show ?thesis by (cases "connect_one p i acc w") (simp add: io_bind_def)
  next
    case False
    from connect_one_ok[OF False, of p i acc] obtain w1 where
      w1: "connect_one p i acc w = (Inr (acc @ [\<lparr>cport = p, ready = True\<rparr>]), w1)"
        "faults w1 = faults w" "requests w1 = Suc (requests w)" by blast
    from False Suc.prems(2) have "k \<noteq> 0" by (cases k) auto
    then obtain k' where k': "k = Suc k'" by (cases k) auto
    with Suc.prems w1 have "k' < n" "faults w1 (requests w1 + k')" by simp_all
    from Suc.IH[OF this] show ?thesis using w1 by (simp add: io_bind_def)
  qed
qed

lemma connect_loop_ok:
  assumes "\<forall>k<n. \<not> faults w (requests w + k)"
  shows "fst (for_loop i n (connect_one p) acc w) = Inr (acc @ replicate n \<lparr>cport = p, ready = True\<rparr>)"
  using assms
proof (induction n arbitrary: i acc w)
  case 0
  then show ?case by (simp add: ret_def)
next
  case (Suc n)
  from Suc.prems have "\<not> faults w (requests w)" by (metis add.right_neutral zero_less_Suc)
  from connect_one_ok[OF this, of p i acc] obtain w1 where
    w1: "connect_one p i acc w = (Inr (acc @ [\<lparr>cport = p, ready = True\<rparr>]), w1)"
      "faults w1 = faults w" "requests w1 = Suc (requests w)" by blast
  have "\<forall>k<n. \<not> faults w1 (requests w1 + k)"
    using Suc.prems w1 by (metis Suc_less_eq add_Suc add_Suc_right)
  from Suc.IH[OF this] show ?case using w1 by (simp add: io_bind_def replicate_app_Cons_same)
qed

text \<open>
  C9. \<open>createClients(port, count)\<close>, for a count that is not negative: when each of the
  \<open>count\<close> connection attempts succeeds it returns a pool of exactly \<open>count\<close> clients,
  every one ready and on the port asked for; when any one of the attempts fails the
  whole call fails, whatever the attempts before it did. It never returns a part of
  the pool.
\<close>

theorem createClients_all_or_nothing:
  assumes "0 \<le> count"
  shows "((\<forall>k < nat count. \<not> faults w (requests w + k)) \<longrightarrow>
            (\<exists>clients. fst (createClients p count w) = Inr clients \<and>
               int (length clients) = count \<and> (\<forall>c \<in> set clients. ready c \<and> cport c = p))) \<and>
         ((\<exists>k < nat count. faults w (requests w + k)) \<longrightarrow>
            fst (createClients p count w) = Inl (ConnectionError p))"
  using assms connect_loop_ok[of "nat count" w 0 p "[]"]
    connect_loop_fault[of _ "nat count" w 0 p "[]"]
  by (auto simp: createClients_def)

text \<open>Eight clients in the sample world; and the same with the sixth attempt failing.\<close>

theorem createClients_all_or_nothing_witness:
  "(\<exists>clients. fst (createClients REDIS_PORT 8 sample_world) = Inr clients \<and>
      int (length clients) = 8 \<and> (\<forall>c \<in> set clients. ready c \<and> cport c = REDIS_PORT)) \<and>
   fst (createClients REDIS_PORT 8 (sample_world\<lparr>faults := (\<lambda>n. n = 5)\<rparr>)) =
     Inl (ConnectionError REDIS_PORT)"
proof -
  have "\<exists>k < nat 8. faults (sample_world\<lparr>faults := (\<lambda>n. n = 5)\<rparr>)
           (requests (sample_world\<lparr>faults := (\<lambda>n. n = 5)\<rparr>) + k)"
    by (rule exI[of _ 5]) (simp add: sample_world_def)
  with createClients_all_or_nothing[of 8 "sample_world\<lparr>faults := (\<lambda>n. n = 5)\<rparr>" REDIS_PORT]
  have "fst (createClients REDIS_PORT 8 (sample_world\<lparr>faults := (\<lambda>n. n = 5)\<rparr>)) =
     Inl (ConnectionError REDIS_PORT)" by simp
  moreover have "\<forall>k < nat 8. \<not> faults sample_world (requests sample_world + k)"
    by (simp add: sample_world_def)
  with createClients_all_or_nothing[of 8 sample_world REDIS_PORT]
  have "\<exists>clients. fst (createClients REDIS_PORT 8 sample_world) = Inr clients \<and>
      int (length clients) = 8 \<and> (\<forall>c \<in> set clients. ready c \<and> cport c = REDIS_PORT)" by simp
  ultimately show ?thesis by blast
qed

section \<open>Connection failure at startup\<close>

lemma connect_databases_fails:
  assumes "faults w (requests w) \<or> faults w (Suc (requests w))"
  shows "\<exists>w'. connect_databases w = (Inl (ProcessExit 1), w') \<and>
     console w' = console w @ [SpinnerFail ''Failed to connect to databases'',
        ConsoleLog ''Make sure both databases are running:'', ConsoleLog ''docker compose up -d''] \<and>
     (\<forall>p. keyspace (servers w' p) = keyspace (servers w p)) \<and>
     requests w' \<le> requests w + 2 \<and> readings w' = readings w \<and> draws w' = draws w"
  using assms
  by (cases "faults w (requests w)")
     (auto simp: connect_databases_def io_catch_def io_bind_def io_then_def connect_def emit_def
        throw_def Let_def on_server_def new_Redis_def)

text \<open>
  C8. When the connection to Redis or the connection to DragonflyDB fails at startup,
  the batch run ends in \<open>process.exit(1)\<close>. All it has shown by then is the two
  headings, the spinner and the failure message: no event of a scenario runner. No key
  of either server has changed, the clock has not been read, no value has been drawn,
  and the network has been used for the two connection attempts at most.
\<close>

theorem startup_failure_aborts:
  assumes "faults w (requests w) \<or> faults w (Suc (requests w))"
  shows "\<exists>w'. runBenchmarks w = (Inl (ProcessExit 1), w') \<and>
     console w' = console w @
       [Heading ''When Speed Takes Flight: DragonflyDB vs Redis'',
        Heading ''Architecture Comparison'',
        SpinnerStart ''Connecting to databases...'',
        SpinnerFail ''Failed to connect to databases'',
        ConsoleLog ''Make sure both databases are running:'',
        ConsoleLog ''docker compose up -d''] \<and>
     filter scenario_event (console w') = filter scenario_event (console w) \<and>
     (\<forall>p. keyspace (servers w' p) = keyspace (servers w p)) \<and>
     requests w' \<le> requests w + 2 \<and> readings w' = readings w \<and> draws w' = draws w"
proof -
  let ?w3 = "w\<lparr>console := console w @
       [Heading ''When Speed Takes Flight: DragonflyDB vs Redis'',
        Heading ''Architecture Comparison'',
        SpinnerStart ''Connecting to databases...'']\<rparr>"
  have "faults ?w3 (requests ?w3) \<or> faults ?w3 (Suc (requests ?w3))" using assms by simp
  from connect_databases_fails[OF this] obtain w' where
    w': "connect_databases ?w3 = (Inl (ProcessExit 1), w')"
      "console w' = console ?w3 @ [SpinnerFail ''Failed to connect to databases'',
        ConsoleLog ''Make sure both databases are running:'', ConsoleLog ''docker compose up -d'']"
      "\<forall>p. keyspace (servers w' p) = keyspace (servers ?w3 p)"
      "requests w' \<le> requests ?w3 + 2" "readings w' = readings ?w3" "draws w' = draws ?w3"
    by blast
  have "runBenchmarks w = (Inl (ProcessExit 1), w')"
    unfolding runBenchmarks_def using w'(1)
    by (simp add: io_then_def io_bind_def emit_def)
  with w' show ?thesis by simp
qed

text \<open>Redis connects, DragonflyDB does not.\<close>

theorem startup_failure_aborts_witness:
  "fst (runBenchmarks (sample_world\<lparr>faults := (\<lambda>n. n = 1)\<rparr>)) = Inl (ProcessExit 1) \<and>
   filter scenario_event (console (snd (runBenchmarks (sample_world\<lparr>faults := (\<lambda>n. n = 1)\<rparr>)))) = [] \<and>
   keyspace (servers (snd (runBenchmarks (sample_world\<lparr>faults := (\<lambda>n. n = 1)\<rparr>))) DRAGONFLY_PORT) =
     [''scan:key:0'', ''other'', ''bulk:1:2'', ''hash:3'']"
  using startup_failure_aborts[of "sample_world\<lparr>faults := (\<lambda>n. n = 1)\<rparr>"]
  by (auto simp: sample_world_def sample_server_def)

section \<open>The counters of the live dashboard\<close>







lemma update_failed:
  assumes "fst (io_bind (quickBenchmark redisConn 10000 1024) (\<lambda>redisOps.
           io_bind (quickBenchmark dragonflyConn 10000 1024) (\<lambda>dragonflyOps.
           ret (redisOps, dragonflyOps))) w) = Inl e"
  shows "fst (update redisConn dragonflyConn d w) =
     d\<lparr>activity := activity d @ [Running (iteration d + 1), ErrorMessage e]\<rparr>"
  using assms by (auto simp: update_def Let_def split: prod.splits sum.splits)







text \<open>
  The win rates are computed in doubles: 23 wins in 40 steps are shown as 57%, because
  \<open>(23 / 40) * 100\<close> is a double just below 57.5; and the rates of 1 win and of 2 wins in 3
  steps sum to a double just below 100.
\<close>

lemma win_rate_doubles:
  "percent0 23 40 = ''57%''"
  "add64 (win_rate 1 3) (win_rate 2 3) = Fin (100 - 1 / 2 ^ 46)"
  by code_simp+




section \<open>Cleanup of the benchmark data\<close>

text \<open>
  In a quiet world the scan of \<open>cleanup\<close> for one pattern, started at a cursor, returns
  and has deleted the keys that match the pattern in the buckets from that cursor on.
\<close>

lemma on_server_same: "on_server p (\<lambda>_. servers w p) w = w"
  by (simp add: on_server_def)

lemma scan_quiet:
  assumes "quiet w"
  shows "scan c cursor pat n w =
     (Inr (next_cursor (servers w (cport c)) cursor, scan_page (servers w (cport c)) cursor pat),
      w\<lparr>requests := Suc (requests w)\<rparr>)"
  using quiet_now[OF assms]
  by (simp add: scan_def call_def io_bind_def Let_def ret_def on_server_def)

lemma del_keys_quiet:
  assumes "quiet w"
  shows "\<exists>w'. del_keys c ks w = (Inr (), w') \<and> quiet w' \<and>
     servers w' = (servers w)(cport c := (servers w (cport c))
        \<lparr>keyspace := filter (\<lambda>k. k \<notin> set ks) (keyspace (servers w (cport c)))\<rparr>)"
proof (cases "ks = []")
  case True
  then show ?thesis using assms by (simp add: del_keys_def ret_def)
next
  case False
  let ?w1 = "w\<lparr>requests := Suc (requests w)\<rparr>"
  have "quiet (on_server (cport c) f ?w1)" for f
    using assms by (rule quiet_later) (simp_all add: on_server_def)
  then show ?thesis
    using False quiet_now[OF assms]
    by (simp add: del_keys_def io_bind_def call_def Let_def ret_def) (simp add: on_server_def)
qed

lemma scan_page_filter:
  "filter (\<lambda>k. k \<notin> set (scan_page sv cursor pat)) (keyspace sv) =
   filter (\<lambda>k. \<not> (bucket sv k mod nbuckets sv = cursor \<and> glob pat k)) (keyspace sv)"
  by (rule filter_cong) (auto simp: scan_page_def)

lemma server_refilter:
  assumes "servers w1 = (servers w)(p := (servers w p)\<lparr>keyspace := filter R (keyspace (servers w p))\<rparr>)"
    and "servers w2 = (servers w1)(p := (servers w1 p)\<lparr>keyspace := filter Q (keyspace (servers w1 p))\<rparr>)"
    and "\<And>k. (R k \<and> Q k) = T k"
  shows "servers w2 = (servers w)(p := (servers w p)\<lparr>keyspace := filter T (keyspace (servers w p))\<rparr>)"
proof -
  have "filter Q (filter R (keyspace (servers w p))) = filter T (keyspace (servers w p))"
    unfolding filter_filter using assms(3) by (intro filter_cong[OF refl]) simp
  then show ?thesis by (simp add: assms(1,2) del: filter_filter)
qed

lemma cleanup_scan_quiet:
  assumes "quiet w" and "0 < nbuckets (servers w (cport c))"
  shows "\<exists>w'. cleanup_scan c pat cursor w = (Inr (), w') \<and> quiet w' \<and>
     servers w' = (servers w)(cport c := (servers w (cport c))
        \<lparr>keyspace := filter (\<lambda>k. \<not> (glob pat k \<and>
              cursor \<le> bucket (servers w (cport c)) k mod nbuckets (servers w (cport c))))
            (keyspace (servers w (cport c)))\<rparr>)"
  using assms
proof (induction c pat cursor w rule: cleanup_scan.induct)
  case (1 client pattern cursor w)
  let ?p = "cport client"
  let ?sv = "servers w ?p"
  let ?w1 = "w\<lparr>requests := Suc (requests w)\<rparr>"
  let ?ks = "scan_page ?sv cursor pattern"
  let ?new = "next_cursor ?sv cursor"
  define R where "R = (\<lambda>k. \<not> (bucket ?sv k mod nbuckets ?sv = cursor \<and> glob pattern k))"
  define T where "T = (\<lambda>k. \<not> (glob pattern k \<and> cursor \<le> bucket ?sv k mod nbuckets ?sv))"
  have s: "scan client cursor pattern 1000 w = (Inr (?new, ?ks), ?w1)"
    by (rule scan_quiet[OF "1.prems"(1)])
  have q1: "quiet ?w1" using "1.prems"(1) by (rule quiet_later) simp_all
  from del_keys_quiet[OF q1, of client ?ks] obtain w2 where
    d: "del_keys client ?ks ?w1 = (Inr (), w2)" "quiet w2"
      "servers w2 = (servers w)(?p := ?sv\<lparr>keyspace := filter (\<lambda>k. k \<notin> set ?ks) (keyspace ?sv)\<rparr>)"
    by auto
  have sv2: "servers w2 = (servers w)(?p := ?sv\<lparr>keyspace := filter R (keyspace ?sv)\<rparr>)"
    using d(3) unfolding R_def scan_page_filter .
  show ?case
  proof (cases "?new = 0")
    case True
    then have last: "nbuckets ?sv \<le> Suc cursor"
      by (simp add: next_cursor_def split: if_splits)
    have "filter R (keyspace ?sv) = filter T (keyspace ?sv)"
    proof (rule filter_cong[OF refl])
      fix k
      have "bucket ?sv k mod nbuckets ?sv < nbuckets ?sv" using "1.prems"(2) by simp
      with last show "R k = T k" unfolding R_def T_def by auto
    qed
    with sv2 have "servers w2 = (servers w)(?p := ?sv\<lparr>keyspace := filter T (keyspace ?sv)\<rparr>)"
      by simp
    moreover have "cleanup_scan client pattern cursor w = (Inr (), w2)"
      using s d True by (subst cleanup_scan.simps) simp
    ultimately show ?thesis using d(2) unfolding T_def by blast
  next
    case False
    then have nc: "?new = Suc cursor" by (simp add: next_cursor_def split: if_splits)
    have nb2: "0 < nbuckets (servers w2 ?p)" using sv2 "1.prems"(2) by simp
    define Q where "Q = (\<lambda>k. \<not> (glob pattern k \<and>
              ?new \<le> bucket (servers w2 ?p) k mod nbuckets (servers w2 ?p)))"
    from "1.IH"[OF s[symmetric] refl refl d(1)[symmetric] refl False d(2) nb2]
    obtain w' where
      r: "cleanup_scan client pattern ?new w2 = (Inr (), w')" "quiet w'"
        "servers w' = (servers w2)(?p := (servers w2 ?p)
          \<lparr>keyspace := filter Q (keyspace (servers w2 ?p))\<rparr>)"
      unfolding Q_def by blast
    have "(R k \<and> Q k) = T k" for k
      unfolding R_def Q_def T_def using nc sv2 by auto
    from server_refilter[OF sv2 r(3) this]
    have "servers w' = (servers w)(?p := ?sv\<lparr>keyspace := filter T (keyspace ?sv)\<rparr>)" .
    moreover have "cleanup_scan client pattern cursor w = (Inr (), w')"
      using s d False r(1) by (subst cleanup_scan.simps) simp
    ultimately show ?thesis using r(2) unfolding T_def by blast
  qed
qed

lemma cleanup_patterns_quiet:
  assumes "quiet w" and "0 < nbuckets (servers w (cport c))"
  shows "\<exists>w'. for_each i ps (\<lambda>i pattern. cleanup_scan c pattern 0) w = (Inr (), w') \<and> quiet w' \<and>
     servers w' = (servers w)(cport c := (servers w (cport c))
        \<lparr>keyspace := filter (\<lambda>k. \<not> list_ex (\<lambda>pattern. glob pattern k) ps)
            (keyspace (servers w (cport c)))\<rparr>)"
  using assms
proof (induction ps arbitrary: i w)
  case Nil
  then show ?case by (simp add: ret_def)
next
  case (Cons pat ps)
  let ?p = "cport c"
  let ?sv = "servers w ?p"
  define R where "R = (\<lambda>k. \<not> (glob pat k \<and> 0 \<le> bucket ?sv k mod nbuckets ?sv))"
  define Q where "Q = (\<lambda>k. \<not> list_ex (\<lambda>pattern. glob pattern k) ps)"
  define T where "T = (\<lambda>k. \<not> list_ex (\<lambda>pattern. glob pattern k) (pat # ps))"
  from cleanup_scan_quiet[OF Cons.prems, of pat 0] obtain w1 where
    1: "cleanup_scan c pat 0 w = (Inr (), w1)" "quiet w1"
      "servers w1 = (servers w)(?p := ?sv\<lparr>keyspace := filter R (keyspace ?sv)\<rparr>)"
    unfolding R_def by blast
  have nb: "0 < nbuckets (servers w1 ?p)" using 1(3) Cons.prems(2) by simp
  from Cons.IH[OF 1(2) nb, of "Suc i"] obtain w' where
    2: "for_each (Suc i) ps (\<lambda>i pattern. cleanup_scan c pattern 0) w1 = (Inr (), w')" "quiet w'"
      "servers w' = (servers w1)(?p := (servers w1 ?p)
        \<lparr>keyspace := filter Q (keyspace (servers w1 ?p))\<rparr>)"
    unfolding Q_def by blast
  have "(R k \<and> Q k) = T k" for k unfolding R_def Q_def T_def by auto
  from server_refilter[OF 1(3) 2(3) this]
  have "servers w' = (servers w)(?p := ?sv\<lparr>keyspace := filter T (keyspace ?sv)\<rparr>)" .
  moreover have "for_each i (pat # ps) (\<lambda>i pattern. cleanup_scan c pattern 0) w = (Inr (), w')"
    using 1(1) 2(1) by (simp add: io_then_def io_bind_def)
  ultimately show ?case using 2(2) unfolding T_def by blast
qed

lemma cleanup_quiet:
  assumes "quiet w" and "0 < nbuckets (servers w (cport c))"
  shows "\<exists>w'. cleanup c w = (Inr (), w') \<and> quiet w' \<and>
     keyspace (servers w' (cport c)) = filter (\<lambda>k. \<not> covered k) (keyspace (servers w (cport c))) \<and>
     (\<forall>q. q \<noteq> cport c \<longrightarrow> servers w' q = servers w q)"
  using cleanup_patterns_quiet[OF assms, of 0 patterns]
  by (auto simp: cleanup_def covered_def)

text \<open>The scenario runners add covered keys only.\<close>

lemma glob_star [simp]: "glob ''*'' s"
  by (induction s) simp_all

lemma covered_prefixes:
  "covered (''scan:'' @ s)" "covered (''bulk:'' @ s)" "covered (''leaderboard:'' @ s)"
  "covered (''mixed:'' @ s)" "covered (''counter:'' @ s)" "covered (''list:'' @ s)"
  "covered (''hash:'' @ s)"
  by (simp_all add: covered_def patterns_def)

lemmas covered_cons [simp] = covered_prefixes[simplified]

lemma adds_covered_refl: "adds_covered w w"
  by (simp add: adds_covered_def)

lemma adds_covered_trans: "adds_covered w w1 \<Longrightarrow> adds_covered w1 w2 \<Longrightarrow> adds_covered w w2"
  unfolding adds_covered_def by blast

lemma adds_covered_same:
  "(\<And>q. keyspace (servers w' q) = keyspace (servers w q)) \<Longrightarrow> adds_covered w w'"
  by (simp add: adds_covered_def)

lemma tidyI:
  "(\<And>w. adds_covered w (snd (m w))) \<Longrightarrow> (\<And>w x. fst (m w) = Inr x \<Longrightarrow> P x) \<Longrightarrow> tidy m P"
  unfolding tidy_def by blast

lemma tidy_world: "tidy m P \<Longrightarrow> adds_covered w (snd (m w))"
  unfolding tidy_def by blast

lemma tidy_value: "tidy m P \<Longrightarrow> m w = (Inr x, w') \<Longrightarrow> P x"
  unfolding tidy_def by (metis fst_conv)

lemma tidy_ret: "P x \<Longrightarrow> tidy (ret x) P"
  by (rule tidyI) (simp_all add: ret_def adds_covered_refl)

lemma tidy_throw: "tidy (throw e) P"
  by (rule tidyI) (simp_all add: throw_def adds_covered_refl)

lemma tidy_bind:
  assumes "tidy m P" and "\<And>x. P x \<Longrightarrow> tidy (f x) Q"
  shows "tidy (io_bind m f) Q"
proof (rule tidyI)
  fix w
  obtain y w1 where m: "m w = (y, w1)" by (cases "m w")
  have a: "adds_covered w w1" using tidy_world[OF assms(1), of w] m by simp
  show "adds_covered w (snd (io_bind m f w))"
  proof (cases y)
    case (Inl e)
    with m a show ?thesis by (simp add: io_bind_def)
  next
    case (Inr x)
    with m have "P x" using tidy_value[OF assms(1)] by blast
    from tidy_world[OF assms(2)[OF this], of w1] a m Inr show ?thesis
      by (auto simp: io_bind_def intro: adds_covered_trans)
  qed
  fix z assume z: "fst (io_bind m f w) = Inr z"
  then obtain x where x: "y = Inr x" using m by (cases y) (auto simp: io_bind_def)
  with m have "P x" using tidy_value[OF assms(1)] by blast
  from assms(2)[OF this] z m x show "Q z"
    by (cases "f x w1") (auto simp: io_bind_def dest: tidy_value)
qed

lemma tidy_then: "tidy m P \<Longrightarrow> tidy k Q \<Longrightarrow> tidy (io_then m k) Q"
  unfolding io_then_def by (blast intro: tidy_bind)

lemma tidy_weaken: "tidy m P \<Longrightarrow> (\<And>x. P x \<Longrightarrow> Q x) \<Longrightarrow> tidy m Q"
  unfolding tidy_def by blast

lemma tidy_emit: "tidy (emit e) (\<lambda>_. True)"
  by (rule tidyI) (simp_all add: emit_def adds_covered_same)

lemma tidy_random: "tidy Math_random (\<lambda>_. True)"
  by (rule tidyI) (simp_all add: Math_random_def adds_covered_same)

lemma tidy_now: "tidy performance_now (\<lambda>_. True)"
  by (rule tidyI) (simp_all add: performance_now_def adds_covered_same)

lemma tidy_disconnect: "tidy (disconnect c) (\<lambda>_. True)"
  by (rule tidyI) (simp_all add: disconnect_def on_server_def adds_covered_same)

lemma tidy_connect: "tidy (connect c) (\<lambda>_. True)"
  by (rule tidyI) (simp_all add: connect_def on_server_def Let_def adds_covered_same)

lemma set_add_keys: "set (add_keys ks store) = set ks \<union> set store"
  unfolding add_keys_def by (induction ks arbitrary: store) auto

lemma serve_keys: "set (keyspace (snd (serve cmd sv))) \<subseteq> set (keyspace sv) \<union> set (written cmd)"
  by (induction cmd sv rule: serve.induct) (auto simp: set_add_keys)

lemma serve_all_keys:
  "set (keyspace (snd (serve_all cmds sv))) \<subseteq> set (keyspace sv) \<union> (\<Union>cmd \<in> set cmds. set (written cmd))"
proof (induction cmds arbitrary: sv)
  case Nil
  show ?case by simp
next
  case (Cons cmd cmds)
  obtain r sv1 where s: "serve cmd sv = (r, sv1)" by (cases "serve cmd sv")
  obtain rs sv2 where t: "serve_all cmds sv1 = (rs, sv2)" by (cases "serve_all cmds sv1")
  from serve_keys[of cmd sv] s have "set (keyspace sv1) \<subseteq> set (keyspace sv) \<union> set (written cmd)"
    by simp
  moreover from Cons[of sv1] t
  have "set (keyspace sv2) \<subseteq> set (keyspace sv1) \<union> (\<Union>cmd \<in> set cmds. set (written cmd))" by simp
  ultimately show ?case using s t by auto
qed

lemma tidy_exec: "covered_commands cmds \<Longrightarrow> tidy (exec c cmds) (\<lambda>_. True)"
proof (rule tidyI)
  fix w assume c: "covered_commands cmds"
  show "adds_covered w (snd (exec c cmds w))"
    using serve_all_keys[of cmds "servers w (cport c)"] c
    by (auto simp: exec_def Let_def on_server_def adds_covered_def covered_commands_def
          split: prod.splits)
qed simp

lemma tidy_call: "covered_commands [cmd] \<Longrightarrow> tidy (call c cmd) (\<lambda>_. True)"
proof (rule tidyI)
  fix w assume c: "covered_commands [cmd]"
  show "adds_covered w (snd (call c cmd w))"
    using serve_keys[of cmd "servers w (cport c)"] c
    by (auto simp: call_def Let_def on_server_def adds_covered_def covered_commands_def
          split: prod.splits reply.splits)
qed simp

lemma tidy_for_loop_inv:
  assumes "P s" and "\<And>i s. P s \<Longrightarrow> tidy (body i s) P"
  shows "tidy (for_loop i n body s) P"
  using assms(1)
proof (induction n arbitrary: i s)
  case 0
  then show ?case by (simp add: tidy_ret)
next
  case (Suc n)
  show ?case by (simp, rule tidy_bind[OF assms(2)[OF Suc.prems]]) (rule Suc.IH)
qed

lemma tidy_for_loop:
  assumes "\<And>i s. tidy (body i s) (\<lambda>_. True)"
  shows "tidy (for_loop i n body s) (\<lambda>_. True)"
  by (rule tidy_for_loop_inv) (simp_all add: assms)

lemma tidy_for_range:
  assumes "\<And>i. tidy (body i) (\<lambda>_. True)"
  shows "tidy (for_range n body) (\<lambda>_. True)"
  unfolding for_range_def by (rule tidy_for_loop) (rule assms)

lemma tidy_for_each:
  assumes "\<And>i x. tidy (body i x) (\<lambda>_. True)"
  shows "tidy (for_each i xs body) (\<lambda>_. True)"
proof (induction xs arbitrary: i)
  case Nil
  show ?case by (simp add: tidy_ret)
next
  case (Cons x xs)
  show ?case by (simp, rule tidy_then[OF assms]) (rule Cons)
qed

lemma tidy_for_batches:
  assumes "\<And>b. tidy (body b) (\<lambda>_. True)"
  shows "tidy (for_batches batch bound body) (\<lambda>_. True)"
  using assms
proof (induction batch bound body rule: for_batches.induct)
  case (1 batch bound body)
  show ?case
  proof (cases "batch < bound")
    case True
    have "tidy (for_batches (batch + 5000) bound body) (\<lambda>_. True)"
      using "1.IH"[OF True] "1.prems" by blast
    with "1.prems" have "tidy (io_then (body batch) (for_batches (batch + 5000) bound body)) (\<lambda>_. True)"
      by (blast intro: tidy_then)
    then show ?thesis by (subst for_batches.simps) (simp add: True)
  next
    case False
    then show ?thesis by (subst for_batches.simps) (simp add: tidy_ret)
  qed
qed

lemma tidy_using_client:
  assumes "\<And>x. tidy (f x) P"
  shows "tidy (using_client c f) P"
  by (cases c) (simp_all add: using_client_def tidy_throw assms)

lemma tidy_draw_char: "tidy (draw_char i s) (\<lambda>_. True)"
  unfolding draw_char_def by (rule tidy_bind[OF tidy_random]) (simp add: tidy_ret)

lemma tidy_generateValue: "tidy (generateValue sz) (\<lambda>_. True)"
  unfolding generateValue_def by (rule tidy_for_loop) (rule tidy_draw_char)

lemma tidy_connect_one: "tidy (connect_one p i cs) (\<lambda>_. True)"
  unfolding connect_one_def by (rule tidy_bind[OF tidy_connect]) (simp add: tidy_ret)

lemma tidy_createClients: "tidy (createClients p count) (\<lambda>_. True)"
  unfolding createClients_def by (rule tidy_for_loop) (rule tidy_connect_one)

lemma tidy_closeClients: "tidy (closeClients cs) (\<lambda>_. True)"
  unfolding closeClients_def by (rule tidy_for_each) (rule tidy_disconnect)

lemma tidy_scan: "tidy (scan c cursor pat n) (\<lambda>_. True)"
  unfolding scan_def
  by (rule tidy_bind[OF tidy_call])
     (auto simp: covered_commands_def tidy_ret tidy_throw split: reply.splits)

lemma scan_pass_adds_covered: "adds_covered w (snd (scan_pass c cursor totalKeys w))"
proof (induction c cursor totalKeys w rule: scan_pass.induct)
  case (1 client cursor totalKeys w)
  obtain y w1 where s: "scan client cursor ''scan:*'' 500 w = (y, w1)"
    by (cases "scan client cursor ''scan:*'' 500 w")
  have a: "adds_covered w w1" using tidy_world[OF tidy_scan, of w client cursor "''scan:*''" 500] s by simp
  show ?case
  proof (cases y)
    case (Inl e)
    with s a show ?thesis by (subst scan_pass.simps) simp
  next
    case (Inr x)
    obtain newCursor ks where x: "x = (newCursor, ks)" by (cases x)
    show ?thesis
    proof (cases "newCursor = 0")
      case True
      with s a Inr x show ?thesis by (subst scan_pass.simps) simp
    next
      case False
      from "1.IH"[OF s[symmetric] Inr x[symmetric] False] a
      have "adds_covered w (snd (scan_pass client newCursor (totalKeys + length ks) w1))"
        by (rule adds_covered_trans[rotated])
      with s Inr x False show ?thesis by (subst scan_pass.simps) simp
    qed
  qed
qed

lemma tidy_scan_pass: "tidy (scan_pass c cursor totalKeys) (\<lambda>_. True)"
  by (rule tidyI) (simp_all add: scan_pass_adds_covered)

lemmas tidy_rules =
  tidy_emit tidy_random tidy_now tidy_disconnect tidy_connect tidy_call tidy_exec
  tidy_generateValue tidy_createClients tidy_closeClients tidy_scan_pass tidy_using_client
  tidy_for_loop tidy_for_range tidy_for_each tidy_for_batches tidy_ret tidy_then tidy_bind

lemma scan_tidy: "tidy (benchmarkConcurrentScan p label numClients keysToCreate) (\<lambda>_. True)"
  unfolding benchmarkConcurrentScan_def Let_def
  by (rule tidy_rules | simp add: covered_commands_def scan_key_def)+

lemma keys_tidy: "tidy (benchmarkKeysPattern p label numClients iterations) (\<lambda>_. True)"
  unfolding benchmarkKeysPattern_def Let_def
  by (rule tidy_rules | simp add: covered_commands_def)+

lemma info_tidy: "tidy (benchmarkMemoryInfo p label numClients iterations) (\<lambda>_. True)"
  unfolding benchmarkMemoryInfo_def Let_def
  by (rule tidy_rules | simp add: covered_commands_def)+

lemma bulk_tidy: "tidy (benchmarkBulkOperations p label batchSize iterations) (\<lambda>_. True)"
  unfolding benchmarkBulkOperations_def Let_def
  by (rule tidy_rules | simp add: covered_commands_def bulk_key_def)+

lemma tidy_add_player: "covered_commands pipeline \<Longrightarrow> tidy (add_player batch i pipeline) covered_commands"
  unfolding add_player_def
  by (rule tidy_bind[OF tidy_random]) (rule tidy_ret, simp add: covered_commands_def)

lemma tidy_players:
  "tidy (for_loop 0 n (add_player batch) []) covered_commands"
proof (rule tidy_for_loop_inv)
  show "covered_commands []" by (simp add: covered_commands_def)
  show "tidy (add_player batch i s) covered_commands" if "covered_commands s" for i s
    using that by (rule tidy_add_player)
qed

lemma zset_tidy:
  "tidy (benchmarkSortedSetQueries p label setSize numClients queriesPerClient) (\<lambda>_. True)"
  unfolding benchmarkSortedSetQueries_def Let_def
  by (rule tidy_players tidy_rules | simp add: covered_commands_def)+

lemma mixed_commands_covered: "covered_commands (concat (map (mixed_commands clientIdx p value) xs))"
  by (auto simp: covered_commands_def mixed_commands_def Let_def)

lemma mixed_tidy:
  "tidy (benchmarkPipelinedMixed p label numClients pipelinesPerClient) (\<lambda>_. True)"
  unfolding benchmarkPipelinedMixed_def Let_def
  by (rule tidy_rules mixed_commands_covered | simp add: covered_commands_def)+

text \<open>
  C7. When no network interaction fails and the server has a bucket to scan, \<open>cleanup\<close>
  returns, and afterwards the server of the client holds no key that one of the seven
  patterns matches (the keys it held that no pattern matches are all still there). And
  whatever the world and the parameters, every key one of the six scenario runners adds
  to a server is matched by one of the patterns.
\<close>

theorem cleanup_leaves_nothing:
  assumes "quiet w" and "0 < nbuckets (servers w (cport c))"
  shows "(\<exists>w'. cleanup c w = (Inr (), w') \<and>
            filter covered (keyspace (servers w' (cport c))) = [] \<and>
            keyspace (servers w' (cport c)) =
              filter (\<lambda>k. \<not> covered k) (keyspace (servers w (cport c)))) \<and>
         adds_covered w (snd (benchmarkConcurrentScan p label numClients keysToCreate w)) \<and>
         adds_covered w (snd (benchmarkKeysPattern p label numClients iterations w)) \<and>
         adds_covered w (snd (benchmarkMemoryInfo p label numClients iterations w)) \<and>
         adds_covered w (snd (benchmarkBulkOperations p label batchSize iterations w)) \<and>
         adds_covered w (snd (benchmarkSortedSetQueries p label setSize numClients queriesPerClient w)) \<and>
         adds_covered w (snd (benchmarkPipelinedMixed p label numClients pipelinesPerClient w))"
proof -
  from cleanup_quiet[OF assms] obtain w' where
    w': "cleanup c w = (Inr (), w')"
      "keyspace (servers w' (cport c)) = filter (\<lambda>k. \<not> covered k) (keyspace (servers w (cport c)))"
    by blast
  have "filter covered (keyspace (servers w' (cport c))) = []"
    unfolding w'(2) by (simp add: filter_empty_conv)
  with w' have "\<exists>w'. cleanup c w = (Inr (), w') \<and>
            filter covered (keyspace (servers w' (cport c))) = [] \<and>
            keyspace (servers w' (cport c)) =
              filter (\<lambda>k. \<not> covered k) (keyspace (servers w (cport c)))"
    by blast
  then show ?thesis
    by (simp add: tidy_world[OF scan_tidy] tidy_world[OF keys_tidy] tidy_world[OF info_tidy]
          tidy_world[OF bulk_tidy] tidy_world[OF zset_tidy] tidy_world[OF mixed_tidy])
qed

text \<open>
  Of the four keys of the sample server, \<open>cleanup\<close> leaves the one that no pattern
  matches.
\<close>

theorem cleanup_leaves_nothing_witness:
  "(\<exists>w'. cleanup sample_redis sample_world = (Inr (), w') \<and>
      keyspace (servers w' REDIS_PORT) = [''other'']) \<and>
   adds_covered sample_world
     (snd (benchmarkPipelinedMixed REDIS_PORT ''Redis'' 10 100 sample_world))"
proof -
  have k: "filter (\<lambda>k. \<not> covered k) [''scan:key:0'', ''other'', ''bulk:1:2'', ''hash:3''] = [''other'']"
    by code_simp
  have n: "0 < nbuckets (servers sample_world (cport sample_redis))"
    by (simp add: sample_world_def sample_server_def)
  note t = cleanup_leaves_nothing[OF quiet_sample_world n, where p = REDIS_PORT
      and label = "''Redis''" and numClients = 10 and pipelinesPerClient = 100
      and keysToCreate = 100000 and iterations = 20 and batchSize = 500 and setSize = 100000
      and queriesPerClient = 100]
  from t obtain w' where w': "cleanup sample_redis sample_world = (Inr (), w')"
    "keyspace (servers w' (cport sample_redis)) =
       filter (\<lambda>k. \<not> covered k) (keyspace (servers sample_world (cport sample_redis)))"
    by blast
  from w'(2) k have "keyspace (servers w' REDIS_PORT) = [''other'']"
    by (simp add: sample_world_def sample_server_def sample_redis_def)
  with w'(1) t show ?thesis by blast
qed

end
